theory Spec2Isabelle
  imports Complex_Main "HOL-Library.Sublist"
begin

section \<open>Regular expressions of the module\<close>

text \<open>
  The module classifies a user-agent string with JavaScript regular expressions. Only the
  constructs that occur in the source are modelled: runs of literal characters, the
  wildcard \<open>.\<close>, character classes, sequencing, alternation, the greedy star, and
  capturing groups (numbered by their opening parenthesis). The quantifiers \<open>+\<close>,
  \<open>?\<close> and \<open>{2,}\<close> are written with these. Strings are lists of 8-bit characters.
\<close>

datatype re =
    Lit string
  | Dot
  | Cls string
  | Seq re re
  | Alt re re
  | Star re
  | Grp nat re

abbreviation Eps :: re where
  "Eps \<equiv> Lit []"

abbreviation Plus :: "re \<Rightarrow> re" where
  "Plus r \<equiv> Seq r (Star r)"

abbreviation Opt :: "re \<Rightarrow> re" where
  "Opt r \<equiv> Alt r Eps"

abbreviation AtLeast2 :: "re \<Rightarrow> re" where
  "AtLeast2 r \<equiv> Seq r (Seq r (Star r))"

datatype regexp = RegExp re bool

abbreviation digit :: re where
  "digit \<equiv> Cls ''0123456789''"

definition upper_letters :: string where
  "upper_letters = ''ABCDEFGHIJKLMNOPQRSTUVWXYZ''"

definition lower_letters :: string where
  "lower_letters = ''abcdefghijklmnopqrstuvwxyz''"

text \<open>
  Under the flag \<open>i\<close> two characters match when their canonical forms are equal; for
  the ASCII patterns of this module the canonical form is the upper-case letter.
\<close>

definition toUpperCase_char :: "char \<Rightarrow> char" where
  "toUpperCase_char c =
     (case map_of (zip lower_letters upper_letters) c of None \<Rightarrow> c | Some u \<Rightarrow> u)"

definition toLowerCase_char :: "char \<Rightarrow> char" where
  "toLowerCase_char c =
     (case map_of (zip upper_letters lower_letters) c of None \<Rightarrow> c | Some l \<Rightarrow> l)"

definition canonicalize :: "bool \<Rightarrow> char \<Rightarrow> char" where
  "canonicalize ic c = (if ic then toUpperCase_char c else c)"

primrec fold_case :: "bool \<Rightarrow> re \<Rightarrow> re" where
  "fold_case ic (Lit w) = Lit (map (canonicalize ic) w)"
| "fold_case ic Dot = Dot"
| "fold_case ic (Cls cs) = Cls (map (canonicalize ic) cs)"
| "fold_case ic (Seq r1 r2) = Seq (fold_case ic r1) (fold_case ic r2)"
| "fold_case ic (Alt r1 r2) = Alt (fold_case ic r1) (fold_case ic r2)"
| "fold_case ic (Star r) = Star (fold_case ic r)"
| "fold_case ic (Grp n r) = Grp n (fold_case ic r)"

text \<open>
  The subject of a match pairs every character with its canonical form: patterns are
  compared with the canonical form, captures return the original text.
\<close>

type_synonym subject = "(char \<times> char) list"
type_synonym captures = "(nat \<times> string) list"
type_synonym mstate = "subject \<times> captures"

definition prepare :: "bool \<Rightarrow> string \<Rightarrow> subject" where
  "prepare ic s = map (\<lambda>c. (canonicalize ic c, c)) s"

fun lit_rest :: "string \<Rightarrow> subject \<Rightarrow> subject option" where
  "lit_rest [] s = Some s"
| "lit_rest (p # ps) [] = None"
| "lit_rest (p # ps) (c # s) = (if fst c = p then lit_rest ps s else None)"

text \<open>
  A greedy star: every iteration has to consume input (an empty iteration is rejected, as
  in ECMAScript), so the length of the remaining input bounds the number of iterations.
  Results are listed in backtracking order, longest first.
\<close>

fun iter :: "nat \<Rightarrow> (mstate \<Rightarrow> mstate list) \<Rightarrow> mstate \<Rightarrow> mstate list" where
  "iter 0 f x = [x]"
| "iter (Suc k) f x =
     concat (map (iter k f) (filter (\<lambda>y. length (fst y) < length (fst x)) (f x))) @ [x]"

text \<open>
  \<open>rmatch r x\<close> lists, in the order a backtracking matcher tries them, the states
  reached by matching \<open>r\<close> at the head of the remaining input of \<open>x\<close>.
\<close>

primrec rmatch :: "re \<Rightarrow> mstate \<Rightarrow> mstate list" where
  "rmatch (Lit w) x =
     (case lit_rest w (fst x) of None \<Rightarrow> [] | Some s' \<Rightarrow> [(s', snd x)])"
| "rmatch Dot x =
     (case fst x of [] \<Rightarrow> []
      | c # s' \<Rightarrow> if fst c = CHR 0x0A \<or> fst c = CHR 0x0D then [] else [(s', snd x)])"
| "rmatch (Cls cs) x =
     (case fst x of [] \<Rightarrow> []
      | c # s' \<Rightarrow> if fst c \<in> set cs then [(s', snd x)] else [])"
| "rmatch (Seq r1 r2) x = concat (map (rmatch r2) (rmatch r1 x))"
| "rmatch (Alt r1 r2) x = rmatch r1 x @ rmatch r2 x"
| "rmatch (Star r) x = iter (length (fst x)) (rmatch r) x"
| "rmatch (Grp n r) x =
     map (\<lambda>y. (fst y, (n, map snd (take (length (fst x) - length (fst y)) (fst x))) # snd y))
       (rmatch r x)"

primrec ngroups :: "re \<Rightarrow> nat" where
  "ngroups (Lit w) = 0"
| "ngroups Dot = 0"
| "ngroups (Cls cs) = 0"
| "ngroups (Seq r1 r2) = ngroups r1 + ngroups r2"
| "ngroups (Alt r1 r2) = ngroups r1 + ngroups r2"
| "ngroups (Star r) = ngroups r"
| "ngroups (Grp n r) = Suc (ngroups r)"

text \<open>
  The array returned by \<open>String.prototype.match\<close>: the matched text, then one entry
  per capturing group, \<open>None\<close> (undefined) for a group that did not take part.
\<close>

definition match_array :: "re \<Rightarrow> subject \<Rightarrow> mstate \<Rightarrow> string option list" where
  "match_array r s y =
     Some (map snd (take (length s - length (fst y)) s))
       # map (map_of (snd y)) [1..<Suc (ngroups r)]"

fun search :: "re \<Rightarrow> subject \<Rightarrow> string option list option" where
  "search r [] =
     (case rmatch r ([], []) of [] \<Rightarrow> None | y # ys \<Rightarrow> Some (match_array r [] y))"
| "search r (c # s) =
     (case rmatch r (c # s, []) of [] \<Rightarrow> search r s
      | y # ys \<Rightarrow> Some (match_array r (c # s) y))"

fun js_match :: "string \<Rightarrow> regexp \<Rightarrow> string option list option" where
  "js_match s (RegExp r ic) = search (fold_case ic r) (prepare ic s)"

definition js_test :: "regexp \<Rightarrow> string \<Rightarrow> bool" where
  "js_test p s = (js_match s p \<noteq> None)"

section \<open>The host\<close>

text \<open>
  Everything the module reads from \<open>window\<close>, \<open>navigator\<close> and the document. The user
  agent is read once, when the module is loaded; the host is the same for all calls of a
  session. A number of the host is a rational, an infinity or \<open>NaN\<close>.
\<close>

datatype jsnum = Num rat | PosInf | NegInf | NaN

record host =
  userAgent :: string
  maxTouchPoints :: "int option"
  devicePixelRatio :: "jsnum option"
  matchMedia :: "(string \<Rightarrow> bool) option"
  clientWidth :: int
  innerWidth :: int
  clientHeight :: int
  innerHeight :: int

section \<open>Rule tables\<close>

text \<open>
  The tables of the source, in its order. All their patterns carry the flag \<open>i\<close>.
\<close>

definition commonOperatingSystems :: "(string \<times> regexp) list" where
  "commonOperatingSystems = [
    (''iOS'', RegExp (Seq (Lit ''iP'') (Grp 1 (Alt (Lit ''hone'') (Alt (Lit ''od'') (Lit ''ad''))))) True),
    (''Android'', RegExp (Lit ''Android'') True),
    (''BlackBerry OS'', RegExp (Alt (Lit ''BlackBerry'') (Lit ''BB10'')) True),
    (''Windows Mobile'', RegExp (Lit ''IEMobile'') True),
    (''Fire OS'', RegExp (Alt (Lit ''Kindle Fire'') (Alt (Lit ''Silk'')
        (Seq (Alt (Lit ''Android'') (Lit ''Linux''))
          (Seq (Plus Dot) (Seq (Lit ''KF'') (AtLeast2 (Cls upper_letters))))))) True),
    (''Amazon OS'', RegExp (Lit ''Kindle'') True),
    (''Windows 3.11'', RegExp (Lit ''Win16'') True),
    (''Windows 95'', RegExp (Alt (Grp 1 (Lit ''Windows 95''))
        (Alt (Grp 2 (Lit ''Win95'')) (Grp 3 (Lit ''Windows_95'')))) True),
    (''Windows 98'', RegExp (Alt (Grp 1 (Lit ''Windows 98'')) (Grp 2 (Lit ''Win98''))) True),
    (''Windows 2000'', RegExp (Alt (Grp 1 (Seq (Lit ''Windows NT 5'') (Seq Dot (Lit ''0''))))
        (Grp 2 (Lit ''Windows 2000''))) True),
    (''Windows XP'', RegExp (Alt (Grp 1 (Seq (Lit ''Windows NT 5'') (Seq Dot (Lit ''1''))))
        (Grp 2 (Lit ''Windows XP''))) True),
    (''Windows Server 2003'', RegExp (Grp 1 (Seq (Lit ''Windows NT 5'') (Seq Dot (Lit ''2'')))) True),
    (''Windows Vista'', RegExp (Grp 1 (Seq (Lit ''Windows NT 6'') (Seq Dot (Lit ''0'')))) True),
    (''Windows 7'', RegExp (Grp 1 (Seq (Lit ''Windows NT 6'') (Seq Dot (Lit ''1'')))) True),
    (''Windows 8'', RegExp (Grp 1 (Seq (Lit ''Windows NT 6'') (Seq Dot (Lit ''2'')))) True),
    (''Windows 8.1'', RegExp (Grp 1 (Seq (Lit ''Windows NT 6'') (Seq Dot (Lit ''3'')))) True),
    (''Windows 10'', RegExp (Grp 1 (Seq (Lit ''Windows NT 10'') (Seq Dot (Lit ''0'')))) True),
    (''Windows ME'', RegExp (Lit ''Windows ME'') True),
    (''Open BSD'', RegExp (Lit ''OpenBSD'') True),
    (''Free BSD'', RegExp (Lit ''FreeBSD'') True),
    (''Sun OS'', RegExp (Lit ''SunOS'') True),
    (''Chrome OS'', RegExp (Lit ''CrOS'') True),
    (''webOS'', RegExp (Lit ''webOS'') True),
    (''Linux'', RegExp (Alt (Grp 1 (Lit ''Linux'')) (Grp 2 (Lit ''X11''))) True),
    (''Mac OS'', RegExp (Alt (Grp 1 (Lit ''Mac_PowerPC'')) (Grp 2 (Lit ''Macintosh''))) True)
  ]"

definition androidVersions :: "(string \<times> regexp) list" where
  "androidVersions = [
    (''Legacy'', RegExp (Seq (Lit ''android '') (Grp 1 (Cls ''2,3''))) True),
    (''Ice Cream Sandwich'', RegExp (Seq (Lit ''android '')
        (Grp 1 (Seq (Lit ''4'') (Seq Dot (Lit ''0''))))) True),
    (''Jellybean'', RegExp (Seq (Lit ''android '')
        (Grp 1 (Seq (Lit ''4'') (Seq Dot (Cls ''1|2|3''))))) True),
    (''KitKat'', RegExp (Seq (Lit ''android '')
        (Grp 1 (Seq (Lit ''4'') (Seq Dot (Lit ''4''))))) True),
    (''Lollipop'', RegExp (Seq (Lit ''android '') (Grp 1 (Lit ''5''))) True),
    (''Marshmallow'', RegExp (Seq (Lit ''android '') (Grp 1 (Lit ''6''))) True),
    (''Nougat'', RegExp (Seq (Lit ''android '')
        (Grp 1 (Seq (Lit ''7'') (Seq Dot (Cls ''0,1''))))) True),
    (''Oreo'', RegExp (Seq (Lit ''android '')
        (Grp 1 (Seq (Lit ''8'') (Seq Dot (Cls ''0,1''))))) True),
    (''Pie'', RegExp (Seq (Lit ''android '') (Grp 1 (Lit ''9''))) True),
    (''Q'', RegExp (Seq (Lit ''android '') (Grp 1 (Lit ''10''))) True)
  ]"

section \<open>Matcher\<close>

record match_result =
  match :: "string option list"
  string :: string

text \<open>
  \<open>testUserAgent\<close> returns the first rule of the list whose pattern matches, or
  \<open>false\<close> (here \<open>None\<close>). Its callers always leave the second argument out, so the
  subject is the module's user agent.
\<close>

fun testUserAgent :: "(string \<times> regexp) list \<Rightarrow> string \<Rightarrow> match_result option" where
  "testUserAgent [] ua = None"
| "testUserAgent (rule # rest) ua =
     (case js_match ua (snd rule) of
        Some m \<Rightarrow> Some \<lparr>match = m, string = fst rule\<rparr>
      | None \<Rightarrow> testUserAgent rest ua)"

section \<open>Operating system and version\<close>

datatype js_error = TypeError

text \<open>A version is a string, or \<open>None\<close> for JavaScript's \<open>undefined\<close>.\<close>

record os_identity =
  name :: string
  version :: "string option"

fun replace_first :: "char \<Rightarrow> char \<Rightarrow> string \<Rightarrow> string" where
  "replace_first a b [] = []"
| "replace_first a b (c # s) = (if c = a then b # s else c # replace_first a b s)"

definition slugify :: "string \<Rightarrow> string" where
  "slugify s = replace_first (CHR '' '') (CHR ''_'') (map toLowerCase_char s)"

fun js_split :: "char \<Rightarrow> string \<Rightarrow> string list" where
  "js_split d [] = [[]]"
| "js_split d (c # s) =
     (if c = d then [] # js_split d s
      else (case js_split d s of [] \<Rightarrow> [[c]] | x # xs \<Rightarrow> (c # x) # xs))"

fun js_join :: "string \<Rightarrow> string list \<Rightarrow> string" where
  "js_join d [] = []"
| "js_join d [x] = x"
| "js_join d (x # y # ys) = x @ d @ js_join d (y # ys)"

text \<open>\<open>s.indexOf(w)\<close>: the first position at which \<open>w\<close> occurs in \<open>s\<close>, or \<open>-1\<close>.\<close>

fun indexOf :: "string \<Rightarrow> string \<Rightarrow> int" where
  "indexOf [] w = (if w = [] then 0 else -1)"
| "indexOf (c # s) w =
     (if take (length w) (c # s) = w then 0
      else (let i = indexOf s w in if i = -1 then -1 else i + 1))"

definition android :: "string \<Rightarrow> js_error + string option" where
  "android ua =
     (case testUserAgent androidVersions ua of
        None \<Rightarrow> Inr (Some [])
      | Some r \<Rightarrow>
          if string r = [] then Inr (Some [])
          else if length (match r) = 2
          then Inr (Some ((case match r ! 1 of None \<Rightarrow> ''undefined'' | Some g \<Rightarrow> g)
                            @ '' ('' @ string r @ '')''))
          else Inr (Some (string r)))"

definition ios_regex :: regexp where
  "ios_regex = RegExp (Seq (Lit ''CPU'') (Seq (Opt (Lit '' iPhone'')) (Seq (Lit '' OS '')
     (Grp 1 (Seq (Plus digit) (Star (Seq (Lit ''_'') (Plus digit)))))))) False"

definition ios :: "string \<Rightarrow> js_error + string option" where
  "ios ua =
     (case js_match ua ios_regex of
        None \<Rightarrow> Inr (Some [])
      | Some m \<Rightarrow>
          if length m = 2
          then (case m ! 1 of None \<Rightarrow> Inl TypeError
                | Some g \<Rightarrow> Inr (Some (js_join ''.'' (js_split (CHR ''_'') g))))
          else Inr (Some []))"

definition chrome_os_regex :: regexp where
  "chrome_os_regex = RegExp (Seq (Lit ''(X11; CrOS '')
     (Seq (Alt (Seq (Lit ''x86_'') (Plus digit)) (Lit ''armv7l''))
       (Seq (Lit '' '') (Seq (Grp 1 (Star (Cls ''0123456789.''))) (Lit '')''))))) False"

definition chrome_os :: "string \<Rightarrow> js_error + string option" where
  "chrome_os ua =
     (case js_match ua chrome_os_regex of
        None \<Rightarrow> Inr (Some [])
      | Some m \<Rightarrow> if length m = 2 then Inr (m ! 1) else Inr (Some []))"

definition mac_os_regex :: regexp where
  "mac_os_regex = RegExp (Seq (Lit ''(Macintosh'') (Seq (Plus Dot) (Seq (Lit ''Mac OS X '')
     (Grp 1 (Alt (Seq (Lit ''10'') (Plus (Seq (Lit ''_'') (Plus digit))))
                 (Seq (Lit ''1'') (Seq (Plus (Lit ''0'')) (Seq (Lit ''.'') (Plus digit))))))))) False"

definition mac_os :: "string \<Rightarrow> js_error + string option" where
  "mac_os ua =
     (case js_match ua mac_os_regex of
        None \<Rightarrow> Inr (Some [])
      | Some m \<Rightarrow>
          if length m = 2
          then (case m ! 1 of None \<Rightarrow> Inl TypeError
                | Some g \<Rightarrow> Inr (Some (js_join ''.'' (js_split (CHR ''_'') g))))
          else Inr (Some []))"

text \<open>
  The object \<open>operatingSystemVersions\<close>, looked up by slug. The slugs that reach it are
  those of the labels of \<open>commonOperatingSystems\<close> and of \<open>unknown\<close>.
\<close>

definition operatingSystemVersions :: "string \<Rightarrow> (string \<Rightarrow> js_error + string option) option" where
  "operatingSystemVersions slug =
     (if slug = ''android'' then Some android
      else if slug = ''ios'' then Some ios
      else if slug = ''chrome_os'' then Some chrome_os
      else if slug = ''mac_os'' then Some mac_os
      else None)"

text \<open>The body of \<open>getOperatingSystem\<close>, run when the cache has no entry.\<close>

definition identifyOS :: "string \<Rightarrow> js_error + os_identity" where
  "identifyOS ua =
     (let name = (case testUserAgent commonOperatingSystems ua of
                    None \<Rightarrow> ''unknown''
                  | Some r \<Rightarrow> if string r = [] then ''unknown'' else string r);
          osSlug = slugify name
      in case operatingSystemVersions osSlug of
           None \<Rightarrow> Inr \<lparr>name = name, version = Some []\<rparr>
         | Some osVersionTest \<Rightarrow>
             (case osVersionTest ua of
                Inl e \<Rightarrow> Inl e
              | Inr v \<Rightarrow> Inr \<lparr>name = name, version = v\<rparr>))"

section \<open>The cache and the device-class predicates\<close>

record cache =
  cached_getOperatingSystem :: "os_identity option"
  cached_isMobile :: "bool option"
  cached_isDesktop :: "bool option"
  cached_isIpadOs :: "bool option"
  cached_isIos :: "bool option"
  cached_isIphone :: "bool option"
  cached_isAndroid :: "bool option"
  cached_isWebOS :: "bool option"
  cached_isBlackberry :: "bool option"
  cached_isKindle :: "bool option"
  cached_isKindleFire :: "bool option"
  cached_isWindowsMobile :: "bool option"
  cached_isMacOs :: "bool option"

definition empty_cache :: cache where
  "empty_cache = \<lparr>cached_getOperatingSystem = None, cached_isMobile = None,
     cached_isDesktop = None, cached_isIpadOs = None, cached_isIos = None,
     cached_isIphone = None, cached_isAndroid = None, cached_isWebOS = None,
     cached_isBlackberry = None, cached_isKindle = None, cached_isKindleFire = None,
     cached_isWindowsMobile = None, cached_isMacOs = None\<rparr>"

text \<open>
  An operation reads and writes the cache and either returns a value or throws.
\<close>

type_synonym 'a operation = "cache \<Rightarrow> (js_error + 'a) \<times> cache"

definition ret :: "'a \<Rightarrow> 'a operation" where
  "ret v c = (Inr v, c)"

definition and_then :: "'a operation \<Rightarrow> ('a \<Rightarrow> 'b operation) \<Rightarrow> 'b operation" where
  "and_then m f c = (case m c of (Inl e, c') \<Rightarrow> (Inl e, c') | (Inr v, c') \<Rightarrow> f v c')"

text \<open>\<open>a || b\<close> and \<open>a && b\<close> evaluate \<open>b\<close> only when \<open>a\<close> does not decide.\<close>

definition or_else :: "bool operation \<Rightarrow> bool operation \<Rightarrow> bool operation" where
  "or_else a b = and_then a (\<lambda>x. if x then ret True else b)"

definition and_also :: "bool operation \<Rightarrow> bool operation \<Rightarrow> bool operation" where
  "and_also a b = and_then a (\<lambda>x. if x then b else ret False)"

text \<open>
  Every predicate has the shape
  \<^verbatim>\<open>if (!cache.f) { cache.f = ...; } return cache.f;\<close>
  so an entry that is absent or \<open>false\<close> is computed again.
\<close>

definition memo :: "(cache \<Rightarrow> bool option) \<Rightarrow> (bool \<Rightarrow> cache \<Rightarrow> cache) \<Rightarrow> bool operation
    \<Rightarrow> bool operation" where
  "memo entry store compute c =
     (if entry c = Some True then (Inr True, c)
      else and_then compute (\<lambda>b c'. (Inr b, store b c')) c)"

definition getOperatingSystem :: "host \<Rightarrow> os_identity operation" where
  "getOperatingSystem h c =
     (case cached_getOperatingSystem c of
        Some os \<Rightarrow> (Inr os, c)
      | None \<Rightarrow>
          (case identifyOS (userAgent h) of
             Inl e \<Rightarrow> (Inl e, c)
           | Inr os \<Rightarrow> (Inr os, c\<lparr>cached_getOperatingSystem := Some os\<rparr>)))"

definition isIos :: "host \<Rightarrow> bool operation" where
  "isIos h = memo cached_isIos (\<lambda>b c. c\<lparr>cached_isIos := Some b\<rparr>)
     (ret (js_test (RegExp (Seq (Lit ''iP'') (Grp 1 (Alt (Lit ''hone'') (Alt (Lit ''od'') (Lit ''ad''))))) False)
        (userAgent h)))"

definition isIphone :: "host \<Rightarrow> bool operation" where
  "isIphone h = memo cached_isIphone (\<lambda>b c. c\<lparr>cached_isIphone := Some b\<rparr>)
     (ret (js_test (RegExp (Lit ''iPhone'') False) (userAgent h)))"

definition isAndroid :: "host \<Rightarrow> bool operation" where
  "isAndroid h = memo cached_isAndroid (\<lambda>b c. c\<lparr>cached_isAndroid := Some b\<rparr>)
     (ret (js_test (RegExp (Lit ''Android'') False) (userAgent h)))"

definition isWebOS :: "host \<Rightarrow> bool operation" where
  "isWebOS h = memo cached_isWebOS (\<lambda>b c. c\<lparr>cached_isWebOS := Some b\<rparr>)
     (ret (js_test (RegExp (Lit ''webOS'') False) (userAgent h)))"

definition isBlackberry :: "host \<Rightarrow> bool operation" where
  "isBlackberry h = memo cached_isBlackberry (\<lambda>b c. c\<lparr>cached_isBlackberry := Some b\<rparr>)
     (ret (js_test (RegExp (Alt (Lit ''Blackberry'') (Lit ''BB10'')) False) (userAgent h)))"

definition isKindle :: "host \<Rightarrow> bool operation" where
  "isKindle h = memo cached_isKindle (\<lambda>b c. c\<lparr>cached_isKindle := Some b\<rparr>)
     (and_then (getOperatingSystem h) (\<lambda>os. ret (indexOf (name os) ''Amazon OS'' > -1)))"

definition isKindleFire :: "host \<Rightarrow> bool operation" where
  "isKindleFire h = memo cached_isKindleFire (\<lambda>b c. c\<lparr>cached_isKindleFire := Some b\<rparr>)
     (and_then (getOperatingSystem h) (\<lambda>os. ret (indexOf (name os) ''Fire OS'' > -1)))"

definition isWindowsMobile :: "host \<Rightarrow> bool operation" where
  "isWindowsMobile h = memo cached_isWindowsMobile (\<lambda>b c. c\<lparr>cached_isWindowsMobile := Some b\<rparr>)
     (ret (js_test (RegExp (Lit ''IEMobile'') False) (userAgent h)))"

definition isMacOs :: "host \<Rightarrow> bool operation" where
  "isMacOs h = memo cached_isMacOs (\<lambda>b c. c\<lparr>cached_isMacOs := Some b\<rparr>)
     (and_then (getOperatingSystem h) (\<lambda>os. ret (indexOf (name os) ''Mac'' > -1)))"

text \<open>
  \<open>navigator.maxTouchPoints\<close> is \<open>None\<close> where the host does not report it;
  \<open>!!n && n === 5\<close> is then false, as it is for \<open>0\<close>.
\<close>

definition isIpadOs :: "host \<Rightarrow> bool operation" where
  "isIpadOs h = memo cached_isIpadOs (\<lambda>b c. c\<lparr>cached_isIpadOs := Some b\<rparr>)
     (and_also (isMacOs h)
        (ret (case maxTouchPoints h of None \<Rightarrow> False | Some n \<Rightarrow> n \<noteq> 0 \<and> n = 5)))"

definition isMobile :: "host \<Rightarrow> bool operation" where
  "isMobile h = memo cached_isMobile (\<lambda>b c. c\<lparr>cached_isMobile := Some b\<rparr>)
     (or_else (isAndroid h) (or_else (isIos h) (or_else (isIpadOs h) (or_else (isKindleFire h)
        (or_else (isKindle h) (or_else (isBlackberry h) (or_else (isWindowsMobile h)
          (isWebOS h))))))))"

definition isDesktop :: "host \<Rightarrow> bool operation" where
  "isDesktop h = memo cached_isDesktop (\<lambda>b c. c\<lparr>cached_isDesktop := Some b\<rparr>)
     (and_then (isMobile h) (\<lambda>m. ret (\<not> m)))"

section \<open>Viewport, breakpoints and density\<close>

definition breakpoints :: "(string \<times> int) list" where
  "breakpoints = [(''xxsmall'', 320), (''xsmall'', 480), (''small'', 600), (''medium'', 740),
     (''large'', 1024), (''xlarge'', 1150), (''xxlarge'', 1440)]"

text \<open>
  \<open>breakpoints.medium\<close> and the like: the value stored under a key of the table. The
  source reads the table only at keys it holds.
\<close>

definition breakpoint :: "string \<Rightarrow> int" where
  "breakpoint k = (case map_of breakpoints k of None \<Rightarrow> 0 | Some w \<Rightarrow> w)"

text \<open>
  A quotient of two integers is a rational number, or an infinity or \<open>NaN\<close> when the
  divisor is zero. The rounding of the quotient to a double is not modelled.
\<close>

definition js_div :: "int \<Rightarrow> int \<Rightarrow> jsnum" where
  "js_div a b =
     (if b = 0 then (if a = 0 then NaN else if 0 < a then PosInf else NegInf)
      else Num (of_int a / of_int b))"

fun js_gt :: "jsnum \<Rightarrow> jsnum \<Rightarrow> bool" where
  "js_gt NaN y = False"
| "js_gt x NaN = False"
| "js_gt PosInf PosInf = False"
| "js_gt PosInf y = True"
| "js_gt x PosInf = False"
| "js_gt NegInf y = False"
| "js_gt x NegInf = True"
| "js_gt (Num a) (Num b) = (b < a)"

fun js_ge :: "jsnum \<Rightarrow> jsnum \<Rightarrow> bool" where
  "js_ge NaN y = False"
| "js_ge x NaN = False"
| "js_ge PosInf y = True"
| "js_ge x NegInf = True"
| "js_ge NegInf y = False"
| "js_ge x PosInf = False"
| "js_ge (Num a) (Num b) = (b \<le> a)"

record viewport =
  width :: int
  height :: int
  aspectRatio :: jsnum

text \<open>The module variable \<open>cachedViewport\<close> is the state of this part.\<close>

type_synonym viewport_state = "viewport option"

text \<open>
  \<open>measure\<close> is the record that \<open>setViewport\<close> builds from the host's geometry;
  \<open>setViewport\<close> stores it, and \<open>getViewport\<close> calls \<open>setViewport\<close> only while
  nothing is stored.
\<close>

definition measure_viewport :: "host \<Rightarrow> viewport" where
  "measure_viewport h =
     (let width = max (clientWidth h) (innerWidth h);
          height = max (clientHeight h) (innerHeight h);
          aspectRatio = js_div width height
      in \<lparr>width = width, height = height, aspectRatio = aspectRatio\<rparr>)"

definition setViewport :: "host \<Rightarrow> viewport_state \<Rightarrow> viewport_state" where
  "setViewport h s = Some (measure_viewport h)"

definition getViewport :: "host \<Rightarrow> viewport_state \<Rightarrow> viewport \<times> viewport_state" where
  "getViewport h s =
     (case s of
        Some v \<Rightarrow> (v, s)
      | None \<Rightarrow> (measure_viewport h, setViewport h s))"

definition getAspectRatio :: "host \<Rightarrow> viewport_state \<Rightarrow> jsnum \<times> viewport_state" where
  "getAspectRatio h s = (let (v, s') = getViewport h s in (aspectRatio v, s'))"

definition isLandscape :: "host \<Rightarrow> viewport_state \<Rightarrow> bool \<times> viewport_state" where
  "isLandscape h s = (let (r, s') = getAspectRatio h s in (js_gt r (Num 1), s'))"

definition isPortrait :: "host \<Rightarrow> viewport_state \<Rightarrow> bool \<times> viewport_state" where
  "isPortrait h s = (let (l, s') = isLandscape h s in (\<not> l, s'))"

definition isWideScreen :: "host \<Rightarrow> viewport_state \<Rightarrow> bool \<times> viewport_state" where
  "isWideScreen h s =
     (let (r, s') = getAspectRatio h s in (js_gt r (js_div (breakpoint ''xxlarge'') 1029), s'))"

definition isSmallScreen :: "host \<Rightarrow> viewport_state \<Rightarrow> bool \<times> viewport_state" where
  "isSmallScreen h s = (let (v, s') = getViewport h s in (width v \<le> breakpoint ''medium'', s'))"

definition isLargeScreen :: "host \<Rightarrow> viewport_state \<Rightarrow> bool \<times> viewport_state" where
  "isLargeScreen h s = (let (v, s') = getViewport h s in (width v \<ge> breakpoint ''xlarge'', s'))"

record breakpoint_entry =
  bp_width :: int
  bp_name :: string
  active :: bool

text \<open>\<open>Object.keys\<close> lists the keys of the table in the order they were written.\<close>

definition getBreakpoints :: "host \<Rightarrow> viewport_state \<Rightarrow> breakpoint_entry list \<times> viewport_state" where
  "getBreakpoints h s =
     (let (v, s') = getViewport h s; vw = width v
      in (map (\<lambda>name. let w = breakpoint name
                       in \<lparr>bp_width = w, bp_name = name, active = (vw \<ge> w)\<rparr>)
            (map fst breakpoints), s'))"

text \<open>
  \<open>window.devicePixelRatio || 1.0\<close>: an absent ratio, zero and \<open>NaN\<close> are falsy.
\<close>

definition pixelRatio :: "host \<Rightarrow> jsnum" where
  "pixelRatio h =
     (case devicePixelRatio h of
        None \<Rightarrow> Num 1
      | Some NaN \<Rightarrow> Num 1
      | Some (Num r) \<Rightarrow> if r = 0 then Num 1 else Num r
      | Some x \<Rightarrow> x)"

definition retina_query_1 :: string where
  "retina_query_1 = ''only screen and (min-resolution: 192dpi), only screen and (min-resolution: 2dppx), only screen and (min-resolution: 75.6dpcm)''"

definition retina_query_2 :: string where
  "retina_query_2 = ''only screen and (-webkit-min-device-pixel-ratio: 2), only screen and (-o-min-device-pixel-ratio: 2/1), only screen and (min--moz-device-pixel-ratio: 2), only screen and (min-device-pixel-ratio: 2)''"

text \<open>
  \<open>window.matchMedia\<close> is \<open>None\<close> where the host has no media queries. The pattern
  of \<open>isRetina\<close> is a literal with the flag \<open>g\<close>, built anew at every call, so that
  \<open>test\<close> starts at the head of the user agent.
\<close>

definition isRetina :: "host \<Rightarrow> bool" where
  "isRetina h =
     (((case matchMedia h of
          None \<Rightarrow> False
        | Some mm \<Rightarrow> mm retina_query_1 \<or> mm retina_query_2)
       \<or> js_ge (pixelRatio h) (Num 2))
      \<and> js_test (RegExp (Grp 1 (Alt (Lit ''iPad'') (Alt (Lit ''iPhone'') (Lit ''iPod'')))) False)
            (userAgent h))"

section \<open>Inputs of the worked examples\<close>

text \<open>A host whose document and window are 600 wide and 800 high.\<close>

definition host_600_800 :: host where
  "host_600_800 = \<lparr>userAgent = [], maxTouchPoints = None, devicePixelRatio = None,
     matchMedia = None, clientWidth = 600, innerWidth = 600, clientHeight = 800,
     innerHeight = 800\<rparr>"

text \<open>
  A host with a given user agent and touch-point count, and user agents: those quoted in
  the comments of the source (iPhone, iPad, Mac OS), a crawler, a Kindle Fire, a
  BlackBerry, and one that carries two version tokens.
\<close>

definition example_host :: "string \<Rightarrow> int option \<Rightarrow> host" where
  "example_host ua t = \<lparr>userAgent = ua, maxTouchPoints = t, devicePixelRatio = None,
     matchMedia = None, clientWidth = 1280, innerWidth = 1280, clientHeight = 800,
     innerHeight = 800\<rparr>"

definition ua_iphone :: string where
  "ua_iphone = ''Mozilla/5.0 (iPhone; CPU iPhone OS 10_3_1 like Mac OS X) AppleWebKit/603.1.30 (KHTML, like Gecko) Version/10.0 Mobile/14E304 Safari/602.1''"

definition ua_googlebot :: string where
  "ua_googlebot = ''Mozilla/5.0 (compatible; Googlebot/2.1; +http://www.google.com/bot.html)''"

definition ua_mac :: string where
  "ua_mac = ''Mozilla/5.0 (Macintosh; Intel Mac OS X 10_14_4) AppleWebKit/537.36 (KHTML, like Gecko) Chrome/74.0.3729.157 Safari/537.36''"

definition ua_ipad :: string where
  "ua_ipad = ''Mozilla/5.0 (iPad; CPU OS 11_0 like Mac OS X) AppleWebKit/604.1.34 (KHTML, like Gecko) Version/11.0 Mobile/15A5341f Safari/604.1''"

definition ua_kindle_fire :: string where
  "ua_kindle_fire = ''Mozilla/5.0 (Linux; Android 4.4.3; KFTHWI Build/KTU84M) AppleWebKit/537.36 (KHTML, like Gecko) Silk/47.1.79 like Chrome/47.0.2526.80 Safari/537.36''"

definition ua_blackberry :: string where
  "ua_blackberry = ''Mozilla/5.0 (BlackBerry; U; BlackBerry 9900; en) AppleWebKit/534.11+ (KHTML, like Gecko) Version/7.1.0.346 Mobile Safari/534.11+''"

definition ua_two_versions :: string where
  "ua_two_versions = ''Mozilla/5.0 (CPU OS 9; iPhone; CPU iPhone OS 10_3_1 like Mac OS X) AppleWebKit/603.1.30''"

section \<open>Notions used in the proofs\<close>

text \<open>A pattern accepts a subject when it matches at its head.\<close>

definition accepts :: "re \<Rightarrow> subject \<Rightarrow> bool" where
  "accepts r s \<longleftrightarrow> rmatch r (s, []) \<noteq> []"

text \<open>
  A subject starts with a set of words when one of them is a prefix of its canonical
  characters. The words with which a match of the version pattern of \<open>ios\<close> starts are
  \<open>CPU OS\<close> or \<open>CPU iPhone OS\<close>, a space and a digit.
\<close>

definition starts :: "string set \<Rightarrow> subject \<Rightarrow> bool" where
  "starts U s \<longleftrightarrow> (\<exists>u\<in>U. prefix u (map fst s))"

definition ios_heads :: "string set" where
  "ios_heads = (@) ''CPU'' ` ((@) '' iPhone'' ` (@) '' OS '' ` (\<lambda>c. [c]) ` set ''0123456789''
                              \<union> (@) '' OS '' ` (\<lambda>c. [c]) ` set ''0123456789'')"

text \<open>
  One matcher simulates another when every state the first reaches on the unfolded subject
  is reached by the second on the case-folded subject.
\<close>

definition simulates :: "(mstate \<Rightarrow> mstate list) \<Rightarrow> (mstate \<Rightarrow> mstate list) \<Rightarrow> bool" where
  "simulates f g \<longleftrightarrow>
     (\<forall>t c s' c'. (s', c') \<in> set (f (prepare False t, c))
        \<longrightarrow> (\<exists>t'. s' = prepare False t' \<and> (prepare True t', c') \<in> set (g (prepare True t, c))))"

text \<open>
  A cache agrees with the host when its operating system is the one \<open>identifyOS\<close>
  computes and every predicate it holds as true is true on a fresh cache. An operation is
  stable with result \<open>r\<close> when, on every such cache, it returns \<open>r\<close> and leaves such a
  cache.
\<close>

definition cache_ok :: "host \<Rightarrow> cache \<Rightarrow> bool" where
  "cache_ok h c \<longleftrightarrow>
     (\<forall>os. cached_getOperatingSystem c = Some os \<longrightarrow> identifyOS (userAgent h) = Inr os)
   \<and> (cached_isMobile c = Some True \<longrightarrow> fst (isMobile h empty_cache) = Inr True)
   \<and> (cached_isDesktop c = Some True \<longrightarrow> fst (isDesktop h empty_cache) = Inr True)
   \<and> (cached_isIpadOs c = Some True \<longrightarrow> fst (isIpadOs h empty_cache) = Inr True)
   \<and> (cached_isIos c = Some True \<longrightarrow> fst (isIos h empty_cache) = Inr True)
   \<and> (cached_isIphone c = Some True \<longrightarrow> fst (isIphone h empty_cache) = Inr True)
   \<and> (cached_isAndroid c = Some True \<longrightarrow> fst (isAndroid h empty_cache) = Inr True)
   \<and> (cached_isWebOS c = Some True \<longrightarrow> fst (isWebOS h empty_cache) = Inr True)
   \<and> (cached_isBlackberry c = Some True \<longrightarrow> fst (isBlackberry h empty_cache) = Inr True)
   \<and> (cached_isKindle c = Some True \<longrightarrow> fst (isKindle h empty_cache) = Inr True)
   \<and> (cached_isKindleFire c = Some True \<longrightarrow> fst (isKindleFire h empty_cache) = Inr True)
   \<and> (cached_isWindowsMobile c = Some True \<longrightarrow> fst (isWindowsMobile h empty_cache) = Inr True)
   \<and> (cached_isMacOs c = Some True \<longrightarrow> fst (isMacOs h empty_cache) = Inr True)"

definition stable :: "host \<Rightarrow> 'a operation \<Rightarrow> js_error + 'a \<Rightarrow> bool" where
  "stable h f r \<longleftrightarrow> (\<forall>c. cache_ok h c \<longrightarrow> fst (f c) = r \<and> cache_ok h (snd (f c)))"

text \<open>The value of \<open>isMobile\<close>, from the user agent, the OS name and the touch points.\<close>

definition mobile_value :: "host \<Rightarrow> os_identity \<Rightarrow> bool" where
  "mobile_value h os \<longleftrightarrow>
     sublist ''Android'' (userAgent h)
   \<or> (sublist ''iPhone'' (userAgent h) \<or> sublist ''iPod'' (userAgent h) \<or> sublist ''iPad'' (userAgent h))
   \<or> (indexOf (name os) ''Mac'' > -1 \<and> maxTouchPoints h = Some 5)
   \<or> indexOf (name os) ''Fire OS'' > -1
   \<or> indexOf (name os) ''Amazon OS'' > -1
   \<or> (sublist ''Blackberry'' (userAgent h) \<or> sublist ''BB10'' (userAgent h))
   \<or> sublist ''IEMobile'' (userAgent h)
   \<or> sublist ''webOS'' (userAgent h)"

text \<open>
  The loop of \<open>testUserAgent\<close> over a subject that has been prepared once for each
  setting of the flag \<open>i\<close>; used to evaluate the tables on a concrete user agent.
\<close>

fun first_match :: "(string \<times> regexp) list \<Rightarrow> subject \<Rightarrow> subject \<Rightarrow> match_result option" where
  "first_match [] si ss = None"
| "first_match (rule # rest) si ss =
     (case (case snd rule of RegExp r ic \<Rightarrow> search (fold_case ic r) (if ic then si else ss)) of
        Some m \<Rightarrow> Some \<lparr>match = m, string = fst rule\<rparr>
      | None \<Rightarrow> first_match rest si ss)"

text \<open>
  The cache states the module can be in: the empty cache of a freshly loaded page, and
  every state that a call of one of its functions leaves behind.
\<close>

inductive reachable :: "host \<Rightarrow> cache \<Rightarrow> bool" for h :: host where
  reachable_empty: "reachable h empty_cache"
| reachable_getOperatingSystem: "reachable h c \<Longrightarrow> reachable h (snd (getOperatingSystem h c))"
| reachable_isMobile: "reachable h c \<Longrightarrow> reachable h (snd (isMobile h c))"
| reachable_isDesktop: "reachable h c \<Longrightarrow> reachable h (snd (isDesktop h c))"
| reachable_isIpadOs: "reachable h c \<Longrightarrow> reachable h (snd (isIpadOs h c))"
| reachable_isIos: "reachable h c \<Longrightarrow> reachable h (snd (isIos h c))"
| reachable_isIphone: "reachable h c \<Longrightarrow> reachable h (snd (isIphone h c))"
| reachable_isAndroid: "reachable h c \<Longrightarrow> reachable h (snd (isAndroid h c))"
| reachable_isWebOS: "reachable h c \<Longrightarrow> reachable h (snd (isWebOS h c))"
| reachable_isBlackberry: "reachable h c \<Longrightarrow> reachable h (snd (isBlackberry h c))"
| reachable_isKindle: "reachable h c \<Longrightarrow> reachable h (snd (isKindle h c))"
| reachable_isKindleFire: "reachable h c \<Longrightarrow> reachable h (snd (isKindleFire h c))"
| reachable_isWindowsMobile: "reachable h c \<Longrightarrow> reachable h (snd (isWindowsMobile h c))"
| reachable_isMacOs: "reachable h c \<Longrightarrow> reachable h (snd (isMacOs h c))"

section \<open>Properties of the matcher\<close>

subsection \<open>Searching\<close>

lemma search_Nil_None: "search r [] = None \<longleftrightarrow> rmatch r ([], []) = []"
  by (simp split: list.splits)

lemma search_Cons_None:
  "search r (c # s) = None \<longleftrightarrow> rmatch r (c # s, []) = [] \<and> search r s = None"
  by (simp split: list.splits)

lemma search_None_iff:
  "search r s = None \<longleftrightarrow> (\<forall>i\<le>length s. rmatch r (drop i s, []) = [])"
proof (induction s)
  case Nil
  show ?case by (simp split: list.splits)
next
  case (Cons c s)
  have "(\<forall>i\<le>length (c # s). rmatch r (drop i (c # s), []) = [])
      \<longleftrightarrow> rmatch r (c # s, []) = [] \<and> (\<forall>i\<le>length s. rmatch r (drop i s, []) = [])"
  proof
    assume a: "\<forall>i\<le>length (c # s). rmatch r (drop i (c # s), []) = []"
    then have "rmatch r (drop 0 (c # s), []) = []" by blast
    moreover have "\<forall>i\<le>length s. rmatch r (drop i s, []) = []"
    proof (intro allI impI)
      fix i assume "i \<le> length s"
      then have "Suc i \<le> length (c # s)" by simp
      with a have "rmatch r (drop (Suc i) (c # s), []) = []" by blast
      then show "rmatch r (drop i s, []) = []" by simp
    qed
    ultimately show "rmatch r (c # s, []) = [] \<and> (\<forall>i\<le>length s. rmatch r (drop i s, []) = [])"
      by simp
  next
    assume b: "rmatch r (c # s, []) = [] \<and> (\<forall>i\<le>length s. rmatch r (drop i s, []) = [])"
    show "\<forall>i\<le>length (c # s). rmatch r (drop i (c # s), []) = []"
    proof (intro allI impI)
      fix i assume "i \<le> length (c # s)"
      then show "rmatch r (drop i (c # s), []) = []"
        using b by (cases i) simp_all
    qed
  qed
  with Cons.IH show ?case
    by (simp only: search_Cons_None)
qed

lemma prepare_drop: "drop i (prepare ic s) = prepare ic (drop i s)"
  by (simp add: prepare_def drop_map)

lemma prepare_length [simp]: "length (prepare ic s) = length s"
  by (simp add: prepare_def)

lemma prepare_snd [simp]: "map snd (prepare ic s) = s"
  by (simp add: prepare_def comp_def)

lemma prepare_Nil [simp]: "prepare ic [] = []"
  by (simp add: prepare_def)

lemma prepare_Cons: "prepare ic (c # s) = (canonicalize ic c, c) # prepare ic s"
  by (simp add: prepare_def)

lemma prepare_append: "prepare ic (s @ t) = prepare ic s @ prepare ic t"
  by (simp add: prepare_def)

lemma js_test_iff:
  "js_test (RegExp r ic) s \<longleftrightarrow> (\<exists>i\<le>length s. rmatch (fold_case ic r) (prepare ic (drop i s), []) \<noteq> [])"
  by (simp add: js_test_def search_None_iff prepare_drop)

lemma canonicalize_False [simp]: "canonicalize False c = c"
  by (simp add: canonicalize_def)

lemma fold_case_False [simp]: "fold_case False r = r"
  by (induction r) (simp_all add: map_idI)

subsection \<open>A case-sensitive match is a case-insensitive match\<close>

lemma toUpperCase_char_cases:
  "toUpperCase_char c = c \<or> (c \<in> set lower_letters \<and> toUpperCase_char c \<in> set upper_letters)"
  by (auto simp add: toUpperCase_char_def split: option.splits
      dest!: map_of_SomeD dest: set_zip_rightD set_zip_leftD)

lemma toUpperCase_char_newline:
  "toUpperCase_char c = CHR 0x0A \<longleftrightarrow> c = CHR 0x0A"
  "toUpperCase_char c = CHR 0x0D \<longleftrightarrow> c = CHR 0x0D"
proof -
  have a: "CHR 0x0A \<notin> set upper_letters" "CHR 0x0D \<notin> set upper_letters"
    "CHR 0x0A \<notin> set lower_letters" "CHR 0x0D \<notin> set lower_letters"
    by (simp_all add: upper_letters_def lower_letters_def)
  show "toUpperCase_char c = CHR 0x0A \<longleftrightarrow> c = CHR 0x0A"
    using toUpperCase_char_cases [of c] toUpperCase_char_cases [of "CHR 0x0A"] a by metis
  show "toUpperCase_char c = CHR 0x0D \<longleftrightarrow> c = CHR 0x0D"
    using toUpperCase_char_cases [of c] toUpperCase_char_cases [of "CHR 0x0D"] a by metis
qed

lemma lit_rest_sim:
  "lit_rest w (prepare False t) = Some s'
    \<Longrightarrow> \<exists>t'. s' = prepare False t' \<and> length t' \<le> length t
          \<and> lit_rest (map (canonicalize True) w) (prepare True t) = Some (prepare True t')"
proof (induction w arbitrary: t)
  case Nil
  then show ?case by auto
next
  case (Cons p w)
  show ?case
  proof (cases t)
    case Nil
    with Cons.prems show ?thesis by simp
  next
    case (Cons c t2)
    with Cons.prems have eq: "c = p" and rest: "lit_rest w (prepare False t2) = Some s'"
      by (auto simp add: prepare_Cons canonicalize_def split: if_splits)
    from Cons.IH [OF rest] obtain t' where "s' = prepare False t'" "length t' \<le> length t2"
      "lit_rest (map (canonicalize True) w) (prepare True t2) = Some (prepare True t')"
      by blast
    with eq Cons show ?thesis
      by (auto simp add: prepare_Cons)
  qed
qed

lemma simulatesD:
  "simulates f g \<Longrightarrow> (s', c') \<in> set (f (prepare False t, c))
    \<Longrightarrow> \<exists>t'. s' = prepare False t' \<and> (prepare True t', c') \<in> set (g (prepare True t, c))"
  unfolding simulates_def by blast

lemma iter_sim:
  assumes fg: "simulates f g"
  shows "simulates (iter k f) (iter k g)"
proof (induction k)
  case 0
  show ?case by (auto simp add: simulates_def)
next
  case (Suc k)
  show ?case
    unfolding simulates_def
  proof (intro allI impI)
    fix t c s' c'
    assume "(s', c') \<in> set (iter (Suc k) f (prepare False t, c))"
    then consider (stop) "s' = prepare False t" "c' = c"
      | (step) y where "y \<in> set (f (prepare False t, c))" "length (fst y) < length t"
          "(s', c') \<in> set (iter k f y)"
      by auto
    then show "\<exists>t'. s' = prepare False t' \<and> (prepare True t', c') \<in> set (iter (Suc k) g (prepare True t, c))"
    proof cases
      case stop
      then show ?thesis by auto
    next
      case step
      obtain ys yc where y: "y = (ys, yc)" by (cases y)
      from simulatesD [OF fg] step(1) y obtain u where u: "ys = prepare False u"
        "(prepare True u, yc) \<in> set (g (prepare True t, c))" by blast
      from simulatesD [OF Suc.IH] step(3) y u obtain t' where t': "s' = prepare False t'"
        "(prepare True t', c') \<in> set (iter k g (prepare True u, yc))" by blast
      from step(2) y u have "length u < length t" by simp
      with u t' show ?thesis by force
    qed
  qed
qed

lemma rmatch_sim: "simulates (rmatch r) (rmatch (fold_case True r))"
proof (induction r)
  case (Lit w)
  show ?case
    unfolding simulates_def
  proof (intro allI impI)
    fix t c s' c'
    assume "(s', c') \<in> set (rmatch (Lit w) (prepare False t, c))"
    then have a: "lit_rest w (prepare False t) = Some s'" "c' = c"
      by (auto split: option.splits)
    from lit_rest_sim [OF a(1)] a(2)
    show "\<exists>t'. s' = prepare False t' \<and> (prepare True t', c') \<in> set (rmatch (fold_case True (Lit w)) (prepare True t, c))"
      by auto
  qed
next
  case Dot
  show ?case
    unfolding simulates_def
  proof (intro allI impI)
    fix t c s' c'
    assume a: "(s', c') \<in> set (rmatch Dot (prepare False t, c))"
    show "\<exists>t'. s' = prepare False t' \<and> (prepare True t', c') \<in> set (rmatch (fold_case True Dot) (prepare True t, c))"
    proof (cases t)
      case Nil
      with a show ?thesis by simp
    next
      case (Cons x xs)
      with a show ?thesis
        by (auto simp add: prepare_Cons canonicalize_def toUpperCase_char_newline split: if_splits)
    qed
  qed
next
  case (Cls cs)
  show ?case
    unfolding simulates_def
  proof (intro allI impI)
    fix t c s' c'
    assume a: "(s', c') \<in> set (rmatch (Cls cs) (prepare False t, c))"
    show "\<exists>t'. s' = prepare False t' \<and> (prepare True t', c') \<in> set (rmatch (fold_case True (Cls cs)) (prepare True t, c))"
    proof (cases t)
      case Nil
      with a show ?thesis by simp
    next
      case (Cons x xs)
      with a show ?thesis
        by (auto simp add: prepare_Cons canonicalize_def split: if_splits)
    qed
  qed
next
  case (Seq r1 r2)
  show ?case
    unfolding simulates_def
  proof (intro allI impI)
    fix t c s' c'
    assume "(s', c') \<in> set (rmatch (Seq r1 r2) (prepare False t, c))"
    then obtain ys yc where y: "(ys, yc) \<in> set (rmatch r1 (prepare False t, c))"
      "(s', c') \<in> set (rmatch r2 (ys, yc))" by auto
    from simulatesD [OF Seq.IH(1) y(1)] obtain u where u: "ys = prepare False u"
      "(prepare True u, yc) \<in> set (rmatch (fold_case True r1) (prepare True t, c))" by blast
    from simulatesD [OF Seq.IH(2)] y(2) u obtain t' where "s' = prepare False t'"
      "(prepare True t', c') \<in> set (rmatch (fold_case True r2) (prepare True u, yc))" by blast
    with u show "\<exists>t'. s' = prepare False t' \<and> (prepare True t', c') \<in> set (rmatch (fold_case True (Seq r1 r2)) (prepare True t, c))"
      by force
  qed
next
  case (Alt r1 r2)
  then show ?case
    unfolding simulates_def by (simp, blast)
next
  case (Star r)
  from iter_sim [OF Star.IH] show ?case
    unfolding simulates_def by simp
next
  case (Grp n r)
  show ?case
    unfolding simulates_def
  proof (intro allI impI)
    fix t c s' c'
    assume "(s', c') \<in> set (rmatch (Grp n r) (prepare False t, c))"
    then obtain yc where y: "(s', yc) \<in> set (rmatch r (prepare False t, c))"
      "c' = (n, map snd (take (length t - length s') (prepare False t))) # yc" by auto
    from simulatesD [OF Grp.IH y(1)] obtain t' where t': "s' = prepare False t'"
      "(prepare True t', yc) \<in> set (rmatch (fold_case True r) (prepare True t, c))" by blast
    have "map snd (take k (prepare ic t)) = take k t" for k ic
      by (simp add: take_map [symmetric])
    with y t' show "\<exists>t'. s' = prepare False t' \<and> (prepare True t', c') \<in> set (rmatch (fold_case True (Grp n r)) (prepare True t, c))"
      by force
  qed
qed

lemma js_test_ignoreCase:
  assumes "js_test (RegExp r False) s"
  shows "js_test (RegExp r True) s"
proof -
  from assms obtain i where i: "i \<le> length s" "rmatch r (prepare False (drop i s), []) \<noteq> []"
    by (auto simp add: js_test_iff)
  then obtain y where "y \<in> set (rmatch r (prepare False (drop i s), []))"
    by (cases "rmatch r (prepare False (drop i s), [])") auto
  then obtain t' where "(prepare True t', snd y) \<in> set (rmatch (fold_case True r) (prepare True (drop i s), []))"
    using simulatesD [OF rmatch_sim, of "fst y" "snd y" r "drop i s" "[]"] by auto
  then have "rmatch (fold_case True r) (prepare True (drop i s), []) \<noteq> []" by auto
  with i show ?thesis by (auto simp add: js_test_iff)
qed

subsection \<open>Literals\<close>

lemma lit_rest_prefix:
  "lit_rest w s = (if prefix w (map fst s) then Some (drop (length w) s) else None)"
  by (induction w s rule: lit_rest.induct) simp_all

lemma prepare_fst: "map fst (prepare ic s) = map (canonicalize ic) s"
  by (simp add: prepare_def comp_def)

lemma sublist_iff_drop: "sublist w s \<longleftrightarrow> (\<exists>i\<le>length s. prefix w (drop i s))"
proof
  assume "sublist w s"
  then obtain ps ss where "s = ps @ w @ ss" by (auto simp add: sublist_def)
  then have "length ps \<le> length s" "prefix w (drop (length ps) s)" by simp_all
  then show "\<exists>i\<le>length s. prefix w (drop i s)" by blast
next
  assume "\<exists>i\<le>length s. prefix w (drop i s)"
  then obtain i ss where "drop i s = w @ ss" by (auto simp add: prefix_def)
  then have "s = take i s @ w @ ss" by (metis append_take_drop_id)
  then show "sublist w s" by (auto simp add: sublist_def)
qed

lemma js_test_accepts:
  "js_test (RegExp r ic) s \<longleftrightarrow> (\<exists>i\<le>length s. accepts (fold_case ic r) (drop i (prepare ic s)))"
  by (simp add: js_test_def search_None_iff accepts_def)

lemma accepts_Lit: "accepts (Lit w) s \<longleftrightarrow> prefix w (map fst s)"
  by (simp add: accepts_def lit_rest_prefix)

lemma accepts_Alt: "accepts (Alt a b) s \<longleftrightarrow> accepts a s \<or> accepts b s"
  by (simp add: accepts_def)

lemma accepts_Grp: "accepts (Grp n r) s \<longleftrightarrow> accepts r s"
  by (simp add: accepts_def)

lemma accepts_Seq_Lit:
  "accepts (Seq (Lit w) r) s \<longleftrightarrow> prefix w (map fst s) \<and> accepts r (drop (length w) s)"
  by (simp add: accepts_def lit_rest_prefix)

lemma prefix_append_drop:
  "prefix a t \<and> prefix b (drop (length a) t) \<longleftrightarrow> prefix (a @ b) t"
  by (auto simp add: prefix_def)

lemma map_fst_drop_prepare:
  "map fst (drop i (prepare ic s)) = drop i (map (canonicalize ic) s)"
  by (simp add: prepare_def drop_map comp_def)

lemma js_test_Lit:
  "js_test (RegExp (Lit w) ic) s \<longleftrightarrow> sublist (map (canonicalize ic) w) (map (canonicalize ic) s)"
  by (simp add: js_test_accepts accepts_Lit map_fst_drop_prepare sublist_iff_drop)

lemma js_test_Lit_False: "js_test (RegExp (Lit w) False) s \<longleftrightarrow> sublist w s"
  by (simp add: js_test_Lit map_idI)

lemma js_test_Alt:
  "js_test (RegExp (Alt a b) ic) s \<longleftrightarrow> js_test (RegExp a ic) s \<or> js_test (RegExp b ic) s"
  by (auto simp add: js_test_accepts accepts_Alt)

lemma js_test_Grp: "js_test (RegExp (Grp n r) ic) s \<longleftrightarrow> js_test (RegExp r ic) s"
  by (simp add: js_test_accepts accepts_Grp)

lemma accepts_Seq_Lit_Lit: "accepts (Seq (Lit a) (Lit b)) u \<longleftrightarrow> accepts (Lit (a @ b)) u"
  using prefix_append_drop [of a "map fst u" b]
  by (simp add: accepts_Seq_Lit accepts_Lit drop_map)

lemma js_test_Seq_Lit_Lit:
  "js_test (RegExp (Seq (Lit a) (Lit b)) ic) s \<longleftrightarrow> js_test (RegExp (Lit (a @ b)) ic) s"
  using accepts_Seq_Lit_Lit [of "map (canonicalize ic) a" "map (canonicalize ic) b"]
  by (simp add: js_test_accepts)

lemma js_test_Seq_Lit_Alt:
  "js_test (RegExp (Seq (Lit a) (Alt r1 r2)) ic) s
    \<longleftrightarrow> js_test (RegExp (Seq (Lit a) r1) ic) s \<or> js_test (RegExp (Seq (Lit a) r2) ic) s"
  by (auto simp add: js_test_accepts accepts_Seq_Lit accepts_Alt)

lemma js_test_Seq_Lit_Grp:
  "js_test (RegExp (Seq (Lit a) (Grp n r)) ic) s \<longleftrightarrow> js_test (RegExp (Seq (Lit a) r) ic) s"
  by (simp add: js_test_accepts accepts_Seq_Lit accepts_Grp)

lemmas js_test_literals = js_test_Alt js_test_Grp js_test_Seq_Lit_Alt js_test_Seq_Lit_Grp
  js_test_Seq_Lit_Lit js_test_Lit_False

lemma isIos_regex_iff:
  "js_test (RegExp (Seq (Lit ''iP'') (Grp 1 (Alt (Lit ''hone'') (Alt (Lit ''od'') (Lit ''ad''))))) False) s
    \<longleftrightarrow> sublist ''iPhone'' s \<or> sublist ''iPod'' s \<or> sublist ''iPad'' s"
  by (simp add: js_test_literals)

lemma isRetina_regex_iff:
  "js_test (RegExp (Grp 1 (Alt (Lit ''iPad'') (Alt (Lit ''iPhone'') (Lit ''iPod'')))) False) s
    \<longleftrightarrow> sublist ''iPad'' s \<or> sublist ''iPhone'' s \<or> sublist ''iPod'' s"
  by (simp add: js_test_literals)

subsection \<open>No version extractor throws\<close>

lemma search_SomeD:
  "search r s = Some m \<Longrightarrow> \<exists>t y. y \<in> set (rmatch r (t, [])) \<and> m = match_array r t y"
proof (induction s)
  case Nil
  show ?case
  proof (cases "rmatch r ([], [])")
    case Nil
    with Nil.prems show ?thesis by simp
  next
    case (Cons y ys)
    with Nil.prems have "m = match_array r [] y" by simp
    moreover from Cons have "y \<in> set (rmatch r ([], []))" by simp
    ultimately show ?thesis by blast
  qed
next
  case (Cons c s)
  show ?case
  proof (cases "rmatch r (c # s, [])")
    case Nil
    with Cons show ?thesis by simp
  next
    case (Cons y ys)
    with Cons.prems have "m = match_array r (c # s) y" by simp
    moreover from Cons have "y \<in> set (rmatch r (c # s, []))" by simp
    ultimately show ?thesis by blast
  qed
qed

lemma rmatch_Seq_D: "y \<in> set (rmatch (Seq a b) x) \<Longrightarrow> \<exists>z. y \<in> set (rmatch b z)"
  by auto

lemma rmatch_Grp_captured: "y \<in> set (rmatch (Grp n r) x) \<Longrightarrow> map_of (snd y) n \<noteq> None"
  by auto

lemma js_match_group1:
  assumes m: "js_match ua (RegExp (Seq a (Seq b (Seq c (Grp 1 d)))) False) = Some m"
    and n: "ngroups a + ngroups b + ngroups c + ngroups d = 0"
  shows "length m = 2 \<and> m ! 1 \<noteq> None"
proof -
  let ?R = "Seq a (Seq b (Seq c (Grp 1 d)))"
  from m have "search ?R (prepare False ua) = Some m" by simp
  then obtain t y where y: "y \<in> set (rmatch ?R (t, []))" and my: "m = match_array ?R t y"
    by (blast dest: search_SomeD)
  from y obtain z1 where "y \<in> set (rmatch (Seq b (Seq c (Grp 1 d))) z1)"
    by (blast dest: rmatch_Seq_D)
  then obtain z2 where "y \<in> set (rmatch (Seq c (Grp 1 d)) z2)"
    by (blast dest: rmatch_Seq_D)
  then obtain z3 where "y \<in> set (rmatch (Grp 1 d) z3)"
    by (blast dest: rmatch_Seq_D)
  then have "map_of (snd y) 1 \<noteq> None"
    by (rule rmatch_Grp_captured)
  with my n show ?thesis
    by (simp add: match_array_def)
qed

lemma ios_total: "\<exists>v. ios ua = Inr v"
proof (cases "js_match ua ios_regex")
  case None
  then show ?thesis by (simp add: ios_def)
next
  case (Some m)
  then have "length m = 2 \<and> m ! 1 \<noteq> None"
    unfolding ios_regex_def by (rule js_match_group1) simp
  with Some show ?thesis by (auto simp add: ios_def)
qed

lemma mac_os_total: "\<exists>v. mac_os ua = Inr v"
proof (cases "js_match ua mac_os_regex")
  case None
  then show ?thesis by (simp add: mac_os_def)
next
  case (Some m)
  then have "length m = 2 \<and> m ! 1 \<noteq> None"
    unfolding mac_os_regex_def by (rule js_match_group1) simp
  with Some show ?thesis by (auto simp add: mac_os_def)
qed

lemma identifyOS_total: "\<exists>os. identifyOS ua = Inr os"
proof -
  have "\<exists>v. f ua = Inr v" if "operatingSystemVersions slug = Some f" for slug f
  proof -
    from that have "f = android \<or> f = ios \<or> f = chrome_os \<or> f = mac_os"
      by (auto simp add: operatingSystemVersions_def split: if_splits)
    moreover have "\<exists>v. android ua = Inr v"
      by (auto simp add: android_def split: option.splits)
    moreover have "\<exists>v. chrome_os ua = Inr v"
      by (auto simp add: chrome_os_def split: option.splits)
    ultimately show ?thesis using ios_total mac_os_total by blast
  qed
  then show ?thesis
    unfolding identifyOS_def Let_def
    by (auto split: option.splits sum.splits) (metis Inl_Inr_False)+
qed

subsection \<open>Evaluating a rule table\<close>

lemma testUserAgent_first_match [code]:
  "testUserAgent rules ua = first_match rules (prepare True ua) (prepare False ua)"
proof (induction rules)
  case Nil
  show ?case by simp
next
  case (Cons rule rules)
  obtain l r ic where "rule = (l, RegExp r ic)"
    by (cases rule, cases "snd rule") auto
  then show ?case by (cases ic) (simp_all add: Cons.IH split: option.splits)
qed

section \<open>The cache is transparent\<close>

lemma cache_ok_empty: "cache_ok h empty_cache"
  by (simp add: cache_ok_def empty_cache_def)

lemma stableD: "stable h f r \<Longrightarrow> cache_ok h c \<Longrightarrow> fst (f c) = r \<and> cache_ok h (snd (f c))"
  by (simp add: stable_def)

lemma stable_ret: "stable h (ret v) (Inr v)"
  by (simp add: stable_def ret_def)

lemma stable_and_then:
  assumes "stable h m (Inr v)" and "stable h (f v) r"
  shows "stable h (and_then m f) r"
  unfolding stable_def
proof (intro allI impI)
  fix c assume c: "cache_ok h c"
  obtain x c1 where m: "m c = (x, c1)" by (cases "m c")
  with stableD [OF assms(1) c] have x: "x = Inr v" and c1: "cache_ok h c1" by simp_all
  from stableD [OF assms(2) c1] m x
  show "fst (and_then m f c) = r \<and> cache_ok h (snd (and_then m f c))"
    by (simp add: and_then_def)
qed

lemma stable_or_else:
  assumes "stable h a (Inr x)" and "stable h b (Inr y)"
  shows "stable h (or_else a b) (Inr (x \<or> y))"
  unfolding or_else_def
  using assms by (cases x) (auto intro!: stable_and_then [where v = x] stable_ret)

lemma stable_and_also:
  assumes "stable h a (Inr x)" and "stable h b (Inr y)"
  shows "stable h (and_also a b) (Inr (x \<and> y))"
  unfolding and_also_def
  using assms by (cases x) (auto intro!: stable_and_then [where v = x] stable_ret)

lemma stable_memo:
  assumes comp: "stable h compute (Inr b)"
    and empty: "entry empty_cache = None"
    and hit: "\<And>c. cache_ok h c \<Longrightarrow> entry c = Some True
                \<Longrightarrow> fst (memo entry store compute empty_cache) = Inr True"
    and put: "\<And>c v. cache_ok h c \<Longrightarrow> fst (memo entry store compute empty_cache) = Inr v
                \<Longrightarrow> cache_ok h (store v c)"
  shows "stable h (memo entry store compute) (Inr b)"
proof -
  obtain c0 where c0: "compute empty_cache = (Inr b, c0)"
    using stableD [OF comp cache_ok_empty] by (cases "compute empty_cache") simp
  with empty have fresh: "fst (memo entry store compute empty_cache) = Inr b"
    by (simp add: memo_def and_then_def)
  show ?thesis
    unfolding stable_def
  proof (intro allI impI)
    fix c assume c: "cache_ok h c"
    show "fst (memo entry store compute c) = Inr b \<and> cache_ok h (snd (memo entry store compute c))"
    proof (cases "entry c = Some True")
      case True
      from hit [OF c True] fresh have "b" by simp
      with True c show ?thesis by (simp add: memo_def)
    next
      case False
      obtain x c1 where m: "compute c = (x, c1)" by (cases "compute c")
      with stableD [OF comp c] have x: "x = Inr b" and c1: "cache_ok h c1" by simp_all
      from put [OF c1 fresh] have "cache_ok h (store b c1)" .
      with False m x show ?thesis by (simp add: memo_def and_then_def)
    qed
  qed
qed

lemma stable_getOperatingSystem:
  assumes "identifyOS (userAgent h) = Inr os"
  shows "stable h (getOperatingSystem h) (Inr os)"
  unfolding stable_def
proof (intro allI impI)
  fix c assume c: "cache_ok h c"
  show "fst (getOperatingSystem h c) = Inr os \<and> cache_ok h (snd (getOperatingSystem h c))"
  proof (cases "cached_getOperatingSystem c")
    case None
    with assms c show ?thesis
      by (simp add: getOperatingSystem_def cache_ok_def)
  next
    case (Some os')
    with c have "identifyOS (userAgent h) = Inr os'" by (simp add: cache_ok_def)
    with assms Some c show ?thesis
      by (simp add: getOperatingSystem_def)
  qed
qed

lemma stable_isIos:
  "stable h (isIos h) (Inr (sublist ''iPhone'' (userAgent h) \<or> sublist ''iPod'' (userAgent h)
     \<or> sublist ''iPad'' (userAgent h)))"
  unfolding isIos_def isIos_regex_iff [symmetric]
  by (rule stable_memo [OF stable_ret])
    (simp_all add: cache_ok_def isIos_def empty_cache_def)

lemma stable_isIphone: "stable h (isIphone h) (Inr (sublist ''iPhone'' (userAgent h)))"
  unfolding isIphone_def js_test_Lit_False [symmetric]
  by (rule stable_memo [OF stable_ret])
    (simp_all add: cache_ok_def isIphone_def empty_cache_def)

lemma stable_isAndroid: "stable h (isAndroid h) (Inr (sublist ''Android'' (userAgent h)))"
  unfolding isAndroid_def js_test_Lit_False [symmetric]
  by (rule stable_memo [OF stable_ret])
    (simp_all add: cache_ok_def isAndroid_def empty_cache_def)

lemma stable_isWebOS: "stable h (isWebOS h) (Inr (sublist ''webOS'' (userAgent h)))"
  unfolding isWebOS_def js_test_Lit_False [symmetric]
  by (rule stable_memo [OF stable_ret])
    (simp_all add: cache_ok_def isWebOS_def empty_cache_def)

lemma stable_isWindowsMobile:
  "stable h (isWindowsMobile h) (Inr (sublist ''IEMobile'' (userAgent h)))"
  unfolding isWindowsMobile_def js_test_Lit_False [symmetric]
  by (rule stable_memo [OF stable_ret])
    (simp_all add: cache_ok_def isWindowsMobile_def empty_cache_def)

lemma isBlackberry_regex_iff:
  "js_test (RegExp (Alt (Lit ''Blackberry'') (Lit ''BB10'')) False) s
    \<longleftrightarrow> sublist ''Blackberry'' s \<or> sublist ''BB10'' s"
  by (simp add: js_test_literals)

lemma stable_isBlackberry:
  "stable h (isBlackberry h)
     (Inr (sublist ''Blackberry'' (userAgent h) \<or> sublist ''BB10'' (userAgent h)))"
  unfolding isBlackberry_def isBlackberry_regex_iff [symmetric]
  by (rule stable_memo [OF stable_ret])
    (simp_all add: cache_ok_def isBlackberry_def empty_cache_def)

lemma stable_isKindle:
  assumes "identifyOS (userAgent h) = Inr os"
  shows "stable h (isKindle h) (Inr (indexOf (name os) ''Amazon OS'' > -1))"
  unfolding isKindle_def
  by (rule stable_memo [OF stable_and_then [OF stable_getOperatingSystem [OF assms] stable_ret]])
    (simp_all add: cache_ok_def isKindle_def empty_cache_def)

lemma stable_isKindleFire:
  assumes "identifyOS (userAgent h) = Inr os"
  shows "stable h (isKindleFire h) (Inr (indexOf (name os) ''Fire OS'' > -1))"
  unfolding isKindleFire_def
  by (rule stable_memo [OF stable_and_then [OF stable_getOperatingSystem [OF assms] stable_ret]])
    (simp_all add: cache_ok_def isKindleFire_def empty_cache_def)

lemma stable_isMacOs:
  assumes "identifyOS (userAgent h) = Inr os"
  shows "stable h (isMacOs h) (Inr (indexOf (name os) ''Mac'' > -1))"
  unfolding isMacOs_def
  by (rule stable_memo [OF stable_and_then [OF stable_getOperatingSystem [OF assms] stable_ret]])
    (simp_all add: cache_ok_def isMacOs_def empty_cache_def)

lemma touch_points_5:
  "(case t of None \<Rightarrow> False | Some n \<Rightarrow> n \<noteq> 0 \<and> n = 5) \<longleftrightarrow> t = Some (5::int)"
  by (cases t) auto

lemma stable_isIpadOs:
  assumes "identifyOS (userAgent h) = Inr os"
  shows "stable h (isIpadOs h)
     (Inr (indexOf (name os) ''Mac'' > -1 \<and> maxTouchPoints h = Some 5))"
  unfolding isIpadOs_def touch_points_5
  by (rule stable_memo [OF stable_and_also [OF stable_isMacOs [OF assms] stable_ret]])
    (simp_all add: cache_ok_def isIpadOs_def empty_cache_def touch_points_5)

lemma stable_isMobile:
  assumes "identifyOS (userAgent h) = Inr os"
  shows "stable h (isMobile h) (Inr (mobile_value h os))"
  unfolding isMobile_def mobile_value_def
  by (rule stable_memo [OF stable_or_else [OF stable_isAndroid stable_or_else [OF stable_isIos
      stable_or_else [OF stable_isIpadOs [OF assms] stable_or_else [OF stable_isKindleFire [OF assms]
      stable_or_else [OF stable_isKindle [OF assms] stable_or_else [OF stable_isBlackberry
      stable_or_else [OF stable_isWindowsMobile stable_isWebOS]]]]]]]])
    (simp_all add: cache_ok_def isMobile_def empty_cache_def)

lemma stable_isDesktop:
  assumes "identifyOS (userAgent h) = Inr os"
  shows "stable h (isDesktop h) (Inr (\<not> mobile_value h os))"
  unfolding isDesktop_def
  by (rule stable_memo [OF stable_and_then [OF stable_isMobile [OF assms] stable_ret]])
    (simp_all add: cache_ok_def isDesktop_def empty_cache_def)

lemma reachable_cache_ok: "reachable h c \<Longrightarrow> cache_ok h c"
proof (induction rule: reachable.induct)
  case reachable_empty
  show ?case by (rule cache_ok_empty)
qed (use identifyOS_total [of "userAgent h"] in
    \<open>auto dest: stableD [OF stable_getOperatingSystem] stableD [OF stable_isMobile]
      stableD [OF stable_isDesktop] stableD [OF stable_isIpadOs] stableD [OF stable_isIos]
      stableD [OF stable_isIphone] stableD [OF stable_isAndroid] stableD [OF stable_isWebOS]
      stableD [OF stable_isBlackberry] stableD [OF stable_isKindle]
      stableD [OF stable_isKindleFire] stableD [OF stable_isWindowsMobile]
      stableD [OF stable_isMacOs]\<close>)

section \<open>Viewport and breakpoints\<close>

lemma breakpoint_values:
  "breakpoint ''xxsmall'' = 320" "breakpoint ''xsmall'' = 480" "breakpoint ''small'' = 600"
  "breakpoint ''medium'' = 740" "breakpoint ''large'' = 1024" "breakpoint ''xlarge'' = 1150"
  "breakpoint ''xxlarge'' = 1440"
  by (simp_all add: breakpoint_def breakpoints_def)

lemma getViewport_setViewport:
  "getViewport h' (setViewport h s) = (measure_viewport h, Some (measure_viewport h))"
  by (simp add: getViewport_def setViewport_def)

lemma measure_viewport_simps:
  "width (measure_viewport h) = max (clientWidth h) (innerWidth h)"
  "height (measure_viewport h) = max (clientHeight h) (innerHeight h)"
  "aspectRatio (measure_viewport h)
     = js_div (max (clientWidth h) (innerWidth h)) (max (clientHeight h) (innerHeight h))"
  by (simp_all add: measure_viewport_def Let_def)

lemma getBreakpoints_eq:
  "fst (getBreakpoints h s) =
     [\<lparr>bp_width = 320, bp_name = ''xxsmall'', active = (320 \<le> width (fst (getViewport h s)))\<rparr>,
      \<lparr>bp_width = 480, bp_name = ''xsmall'', active = (480 \<le> width (fst (getViewport h s)))\<rparr>,
      \<lparr>bp_width = 600, bp_name = ''small'', active = (600 \<le> width (fst (getViewport h s)))\<rparr>,
      \<lparr>bp_width = 740, bp_name = ''medium'', active = (740 \<le> width (fst (getViewport h s)))\<rparr>,
      \<lparr>bp_width = 1024, bp_name = ''large'', active = (1024 \<le> width (fst (getViewport h s)))\<rparr>,
      \<lparr>bp_width = 1150, bp_name = ''xlarge'', active = (1150 \<le> width (fst (getViewport h s)))\<rparr>,
      \<lparr>bp_width = 1440, bp_name = ''xxlarge'', active = (1440 \<le> width (fst (getViewport h s)))\<rparr>]"
  by (simp add: getBreakpoints_def breakpoints_def breakpoint_values split_beta Let_def)

lemma getBreakpoints_map:
  "fst (getBreakpoints h s) =
     map (\<lambda>p. \<lparr>bp_width = snd p, bp_name = fst p,
                 active = (snd p \<le> width (fst (getViewport h s)))\<rparr>) breakpoints"
  by (simp add: getBreakpoints_eq) (simp add: breakpoints_def)

section \<open>Properties of the rule tables\<close>

lemma testUserAgent_None_iff:
  "testUserAgent rules ua = None \<longleftrightarrow> (\<forall>q\<in>set rules. js_match ua (snd q) = None)"
  by (induction rules) (auto split: option.splits)

lemma testUserAgent_label:
  "testUserAgent rules ua = Some r \<Longrightarrow> string r \<in> fst ` set rules"
  by (induction rules) (auto split: option.splits)

lemma testUserAgent_before:
  "testUserAgent (pre @ post) ua = Some r \<Longrightarrow> string r \<notin> fst ` set pre
    \<Longrightarrow> \<forall>q\<in>set pre. js_match ua (snd q) = None"
  by (induction pre) (auto split: option.splits dest: testUserAgent_label)

lemma testUserAgent_head:
  "js_match ua (snd rule) \<noteq> None \<Longrightarrow> \<exists>m. testUserAgent (rule # rest) ua = Some \<lparr>match = m, string = fst rule\<rparr>"
  by (auto split: option.splits)

lemma labels_nonempty: "[] \<notin> fst ` set commonOperatingSystems"
  by (simp add: commonOperatingSystems_def)

lemma mac_label_last: "''Mac OS'' \<notin> fst ` set (butlast commonOperatingSystems)"
  by (simp add: commonOperatingSystems_def)

lemma slugify_unknown: "slugify ''unknown'' = ''unknown''"
  by code_simp

lemma versions_unknown: "operatingSystemVersions ''unknown'' = None"
  by (simp add: operatingSystemVersions_def)

lemma identifyOS_unknown:
  assumes "testUserAgent commonOperatingSystems ua = None"
  shows "identifyOS ua = Inr \<lparr>name = ''unknown'', version = Some []\<rparr>"
  using assms by (simp add: identifyOS_def slugify_unknown versions_unknown)

lemma identifyOS_name:
  assumes "identifyOS ua = Inr os"
  shows "name os = (case testUserAgent commonOperatingSystems ua of
                      None \<Rightarrow> ''unknown'' | Some r \<Rightarrow> string r)"
proof (cases "testUserAgent commonOperatingSystems ua")
  case None
  with assms show ?thesis by (auto simp add: identifyOS_unknown)
next
  case (Some r)
  with testUserAgent_label [OF Some] labels_nonempty have "string r \<noteq> []" by metis
  with assms Some show ?thesis
    by (auto simp add: identifyOS_def Let_def split: option.splits sum.splits)
qed

lemma indexOf_unknown:
  "\<not> indexOf ''unknown'' ''Mac'' > -1" "\<not> indexOf ''unknown'' ''Fire OS'' > -1"
  "\<not> indexOf ''unknown'' ''Amazon OS'' > -1"
  by code_simp+

lemma indexOf_Mac_OS:
  "indexOf ''Mac OS'' ''Mac'' > -1" "\<not> indexOf ''Mac OS'' ''Fire OS'' > -1"
  "\<not> indexOf ''Mac OS'' ''Amazon OS'' > -1"
  by code_simp+

lemma indexOf_Mac_label:
  assumes "n \<in> fst ` set (butlast commonOperatingSystems)"
  shows "\<not> indexOf n ''Mac'' > -1"
proof -
  have "list_all (\<lambda>n. \<not> indexOf n ''Mac'' > -1) (map fst (butlast commonOperatingSystems))"
    by code_simp
  with assms show ?thesis by (auto simp add: list_all_iff)
qed

lemma isMacOs_name:
  assumes os: "identifyOS ua = Inr os"
  shows "indexOf (name os) ''Mac'' > -1 \<longleftrightarrow> name os = ''Mac OS''"
proof
  assume mac: "indexOf (name os) ''Mac'' > -1"
  show "name os = ''Mac OS''"
  proof (cases "testUserAgent commonOperatingSystems ua")
    case None
    with identifyOS_name [OF os] mac indexOf_unknown show ?thesis by simp
  next
    case (Some r)
    with identifyOS_name [OF os] have n: "name os = string r" by simp
    from testUserAgent_label [OF Some] n
    have "name os \<in> fst ` set (butlast commonOperatingSystems @ [last commonOperatingSystems])"
      by (simp add: commonOperatingSystems_def)
    with mac indexOf_Mac_label have "name os = fst (last commonOperatingSystems)"
      by auto
    then show ?thesis by (simp add: commonOperatingSystems_def)
  qed
next
  assume "name os = ''Mac OS''"
  with indexOf_Mac_OS show "indexOf (name os) ''Mac'' > -1" by simp
qed

lemma in_butlast_table:
  "(''iOS'', RegExp (Seq (Lit ''iP'') (Grp 1 (Alt (Lit ''hone'') (Alt (Lit ''od'') (Lit ''ad''))))) True)
     \<in> set (butlast commonOperatingSystems)"
  "(''Android'', RegExp (Lit ''Android'') True) \<in> set (butlast commonOperatingSystems)"
  "(''BlackBerry OS'', RegExp (Alt (Lit ''BlackBerry'') (Lit ''BB10'')) True)
     \<in> set (butlast commonOperatingSystems)"
  "(''Windows Mobile'', RegExp (Lit ''IEMobile'') True) \<in> set (butlast commonOperatingSystems)"
  "(''webOS'', RegExp (Lit ''webOS'') True) \<in> set (butlast commonOperatingSystems)"
  by (simp_all add: commonOperatingSystems_def)

lemma no_match_no_test:
  assumes "\<forall>q\<in>set rules. js_match ua (snd q) = None" and "(l, RegExp r True) \<in> set rules"
  shows "\<not> js_test (RegExp r False) ua"
proof -
  from assms have "js_match ua (RegExp r True) = None" by force
  then have "\<not> js_test (RegExp r True) ua" by (simp add: js_test_def)
  then show ?thesis using js_test_ignoreCase by blast
qed

lemma blackberry_fold:
  "js_test (RegExp (Alt (Lit ''Blackberry'') (Lit ''BB10'')) True) ua
    = js_test (RegExp (Alt (Lit ''BlackBerry'') (Lit ''BB10'')) True) ua"
proof -
  have "fold_case True (Alt (Lit ''Blackberry'') (Lit ''BB10''))
      = fold_case True (Alt (Lit ''BlackBerry'') (Lit ''BB10''))"
    by code_simp
  then show ?thesis by (simp only: js_test_def js_match.simps)
qed

lemma earlier_rules_silent:
  assumes none: "\<forall>q\<in>set (butlast commonOperatingSystems). js_match ua (snd q) = None"
  shows "\<not> sublist ''Android'' ua"
    and "\<not> (sublist ''iPhone'' ua \<or> sublist ''iPod'' ua \<or> sublist ''iPad'' ua)"
    and "\<not> (sublist ''Blackberry'' ua \<or> sublist ''BB10'' ua)"
    and "\<not> sublist ''IEMobile'' ua"
    and "\<not> sublist ''webOS'' ua"
proof -
  from no_match_no_test [OF none in_butlast_table(2)]
  show "\<not> sublist ''Android'' ua" by (simp add: js_test_Lit_False)
  from no_match_no_test [OF none in_butlast_table(1)]
  show "\<not> (sublist ''iPhone'' ua \<or> sublist ''iPod'' ua \<or> sublist ''iPad'' ua)"
    unfolding isIos_regex_iff .
  from none in_butlast_table(3)
  have "js_match ua (RegExp (Alt (Lit ''BlackBerry'') (Lit ''BB10'')) True) = None" by force
  then have "\<not> js_test (RegExp (Alt (Lit ''Blackberry'') (Lit ''BB10'')) True) ua"
    by (simp add: blackberry_fold) (simp add: js_test_def)
  then have "\<not> js_test (RegExp (Alt (Lit ''Blackberry'') (Lit ''BB10'')) False) ua"
    using js_test_ignoreCase by blast
  then show "\<not> (sublist ''Blackberry'' ua \<or> sublist ''BB10'' ua)"
    unfolding isBlackberry_regex_iff .
  from no_match_no_test [OF none in_butlast_table(4)]
  show "\<not> sublist ''IEMobile'' ua" by (simp add: js_test_Lit_False)
  from no_match_no_test [OF none in_butlast_table(5)]
  show "\<not> sublist ''webOS'' ua" by (simp add: js_test_Lit_False)
qed

lemma mac_os_earlier_rules:
  assumes os: "identifyOS ua = Inr os" and mac: "name os = ''Mac OS''"
  shows "\<forall>q\<in>set (butlast commonOperatingSystems). js_match ua (snd q) = None"
proof (cases "testUserAgent commonOperatingSystems ua")
  case None
  with identifyOS_name [OF os] mac show ?thesis by simp
next
  case (Some r)
  with identifyOS_name [OF os] mac have r: "string r = ''Mac OS''" by simp
  have "commonOperatingSystems = butlast commonOperatingSystems @ [last commonOperatingSystems]"
    by (simp add: commonOperatingSystems_def)
  with Some have "testUserAgent (butlast commonOperatingSystems @ [last commonOperatingSystems]) ua = Some r"
    by simp
  from testUserAgent_before [OF this] r mac_label_last show ?thesis by simp
qed

lemma reachable_results:
  assumes c: "reachable h c" and os: "identifyOS (userAgent h) = Inr os"
  shows "fst (getOperatingSystem h c) = Inr os"
    and "fst (isMobile h c) = Inr (mobile_value h os)"
    and "fst (isDesktop h c) = Inr (\<not> mobile_value h os)"
    and "fst (isIpadOs h c) = Inr (indexOf (name os) ''Mac'' > -1 \<and> maxTouchPoints h = Some 5)"
    and "fst (isMacOs h c) = Inr (indexOf (name os) ''Mac'' > -1)"
    and "fst (isKindle h c) = Inr (indexOf (name os) ''Amazon OS'' > -1)"
    and "fst (isKindleFire h c) = Inr (indexOf (name os) ''Fire OS'' > -1)"
    and "fst (isIos h c) = Inr (sublist ''iPhone'' (userAgent h) \<or> sublist ''iPod'' (userAgent h)
           \<or> sublist ''iPad'' (userAgent h))"
    and "fst (isIphone h c) = Inr (sublist ''iPhone'' (userAgent h))"
    and "fst (isAndroid h c) = Inr (sublist ''Android'' (userAgent h))"
    and "fst (isBlackberry h c)
           = Inr (sublist ''Blackberry'' (userAgent h) \<or> sublist ''BB10'' (userAgent h))"
    and "fst (isWindowsMobile h c) = Inr (sublist ''IEMobile'' (userAgent h))"
    and "fst (isWebOS h c) = Inr (sublist ''webOS'' (userAgent h))"
proof -
  note ok = reachable_cache_ok [OF c]
  show "fst (getOperatingSystem h c) = Inr os"
    by (rule conjunct1 [OF stableD [OF stable_getOperatingSystem [OF os] ok]])
  show "fst (isMobile h c) = Inr (mobile_value h os)"
    by (rule conjunct1 [OF stableD [OF stable_isMobile [OF os] ok]])
  show "fst (isDesktop h c) = Inr (\<not> mobile_value h os)"
    by (rule conjunct1 [OF stableD [OF stable_isDesktop [OF os] ok]])
  show "fst (isIpadOs h c) = Inr (indexOf (name os) ''Mac'' > -1 \<and> maxTouchPoints h = Some 5)"
    by (rule conjunct1 [OF stableD [OF stable_isIpadOs [OF os] ok]])
  show "fst (isMacOs h c) = Inr (indexOf (name os) ''Mac'' > -1)"
    by (rule conjunct1 [OF stableD [OF stable_isMacOs [OF os] ok]])
  show "fst (isKindle h c) = Inr (indexOf (name os) ''Amazon OS'' > -1)"
    by (rule conjunct1 [OF stableD [OF stable_isKindle [OF os] ok]])
  show "fst (isKindleFire h c) = Inr (indexOf (name os) ''Fire OS'' > -1)"
    by (rule conjunct1 [OF stableD [OF stable_isKindleFire [OF os] ok]])
  show "fst (isIos h c) = Inr (sublist ''iPhone'' (userAgent h) \<or> sublist ''iPod'' (userAgent h)
           \<or> sublist ''iPad'' (userAgent h))"
    by (rule conjunct1 [OF stableD [OF stable_isIos ok]])
  show "fst (isIphone h c) = Inr (sublist ''iPhone'' (userAgent h))"
    by (rule conjunct1 [OF stableD [OF stable_isIphone ok]])
  show "fst (isAndroid h c) = Inr (sublist ''Android'' (userAgent h))"
    by (rule conjunct1 [OF stableD [OF stable_isAndroid ok]])
  show "fst (isBlackberry h c)
           = Inr (sublist ''Blackberry'' (userAgent h) \<or> sublist ''BB10'' (userAgent h))"
    by (rule conjunct1 [OF stableD [OF stable_isBlackberry ok]])
  show "fst (isWindowsMobile h c) = Inr (sublist ''IEMobile'' (userAgent h))"
    by (rule conjunct1 [OF stableD [OF stable_isWindowsMobile ok]])
  show "fst (isWebOS h c) = Inr (sublist ''webOS'' (userAgent h))"
    by (rule conjunct1 [OF stableD [OF stable_isWebOS ok]])
qed

lemma search_skip:
  "(\<forall>i<n. rmatch r (drop i s, []) = []) \<Longrightarrow> n \<le> length s \<Longrightarrow> search r s = search r (drop n s)"
proof (induction n arbitrary: s)
  case 0
  show ?case by simp
next
  case (Suc n)
  then obtain c s' where s: "s = c # s'" by (cases s) auto
  from Suc.prems(1) have "rmatch r (drop 0 s, []) = []" by blast
  with s have a: "search r s = search r s'" by simp
  have "\<forall>i<n. rmatch r (drop i s', []) = []"
  proof (intro allI impI)
    fix i assume "i < n"
    then have "rmatch r (drop (Suc i) s, []) = []" using Suc.prems(1) by blast
    with s show "rmatch r (drop i s', []) = []" by simp
  qed
  with Suc.IH [of s'] Suc.prems(2) s have "search r s' = search r (drop n s')" by simp
  with a s show ?case by simp
qed

lemma iter_nonempty: "iter k f x \<noteq> []"
  by (cases k) simp_all

lemma rmatch_Seq_Star_nonempty: "rmatch (Seq a (Star r)) x \<noteq> [] \<longleftrightarrow> rmatch a x \<noteq> []"
proof
  assume "rmatch (Seq a (Star r)) x \<noteq> []"
  then show "rmatch a x \<noteq> []" by auto
next
  assume "rmatch a x \<noteq> []"
  then obtain y ys where y: "rmatch a x = y # ys" by (cases "rmatch a x") auto
  have "iter (length (fst y)) (rmatch r) y \<noteq> []" by (rule iter_nonempty)
  with y show "rmatch (Seq a (Star r)) x \<noteq> []" by simp
qed

lemma accepts_Seq_Star: "accepts (Seq a (Star r)) s \<longleftrightarrow> accepts a s"
  by (simp only: accepts_def rmatch_Seq_Star_nonempty)

lemma accepts_Cls: "accepts (Cls cs) s \<longleftrightarrow> starts ((\<lambda>c. [c]) ` set cs) s"
  by (cases s) (auto simp add: accepts_def starts_def)

lemma starts_Seq_Lit:
  assumes "\<And>s. accepts r s \<longleftrightarrow> starts U s"
  shows "accepts (Seq (Lit w) r) s \<longleftrightarrow> starts ((@) w ` U) s"
  using prefix_append_drop [of w "map fst s"]
  by (auto simp add: accepts_Seq_Lit assms starts_def drop_map)

lemma starts_Seq_Opt_Lit:
  assumes "\<And>s. accepts r s \<longleftrightarrow> starts U s"
  shows "accepts (Seq (Opt (Lit a)) r) s \<longleftrightarrow> starts ((@) a ` U \<union> U) s"
proof -
  have "accepts (Seq (Opt (Lit a)) r) s
      \<longleftrightarrow> (prefix a (map fst s) \<and> accepts r (drop (length a) s)) \<or> accepts r s"
    by (simp add: accepts_def lit_rest_prefix)
  then show ?thesis
    using prefix_append_drop [of a "map fst s"]
    by (auto simp add: assms starts_def drop_map)
qed

lemma accepts_ios_regex:
  "accepts (Seq (Lit ''CPU'') (Seq (Opt (Lit '' iPhone'')) (Seq (Lit '' OS '')
     (Grp 1 (Seq (Plus digit) (Star (Seq (Lit ''_'') (Plus digit)))))))) s
   \<longleftrightarrow> starts ios_heads s"
  unfolding ios_heads_def
  by (intro starts_Seq_Lit starts_Seq_Opt_Lit)
    (simp only: accepts_Grp accepts_Seq_Star accepts_Cls)

lemma ios_heads_local:
  assumes u: "u \<in> ios_heads" and p: "prefix u (d @ ''iPhone;'' @ rest)" and d: "d \<noteq> []"
  shows "prefix u d"
proof (rule ccontr)
  assume n: "\<not> prefix u d"
  from p have "prefix u d \<or> (\<exists>us. u = d @ us \<and> prefix us (''iPhone;'' @ rest))"
    by (simp only: prefix_append)
  with n obtain us where us: "u = d @ us" "prefix us (''iPhone;'' @ rest)" by blast
  with n have "us \<noteq> []" by auto
  with us(2) obtain vs where v: "us = CHR ''i'' # vs" and vs: "prefix vs (''Phone;'' @ rest)"
    by (cases us) auto
  from u us(1) d v vs show False
    unfolding ios_heads_def
    by (auto simp add: Cons_eq_append_conv append_eq_Cons_conv)
qed

lemma ios_at_token:
  "search (Seq (Lit ''CPU'') (Seq (Opt (Lit '' iPhone'')) (Seq (Lit '' OS '')
     (Grp 1 (Seq (Plus digit) (Star (Seq (Lit ''_'') (Plus digit))))))))
     (prepare False (''iPhone; CPU iPhone OS 10_3_1 like Mac OS X'' @ post))
   = Some [Some ''CPU iPhone OS 10_3_1'', Some ''10_3_1'']"
  by (simp add: prepare_Cons prepare_append match_array_def)

lemma ios_version_at_token:
  assumes ua: "ua = pre @ ''iPhone; CPU iPhone OS 10_3_1 like Mac OS X'' @ post"
    and first: "\<not> js_test ios_regex pre"
  shows "ios ua = Inr (Some ''10.3.1'')"
proof -
  let ?R = "Seq (Lit ''CPU'') (Seq (Opt (Lit '' iPhone'')) (Seq (Lit '' OS '')
     (Grp 1 (Seq (Plus digit) (Star (Seq (Lit ''_'') (Plus digit)))))))"
  let ?tok = "''iPhone; CPU iPhone OS 10_3_1 like Mac OS X''"
  have "\<forall>i<length pre. rmatch ?R (drop i (prepare False ua), []) = []"
  proof (intro allI impI)
    fix i assume i: "i < length pre"
    have "\<not> accepts ?R (drop i (prepare False ua))"
    proof
      assume "accepts ?R (drop i (prepare False ua))"
      then have "starts ios_heads (drop i (prepare False ua))"
        by (simp only: accepts_ios_regex)
      then obtain u where u: "u \<in> ios_heads" and p: "prefix u (drop i ua)"
        by (auto simp add: starts_def map_fst_drop_prepare map_idI)
      from i have "drop i ua = drop i pre @ ''iPhone;'' @ ('' CPU iPhone OS 10_3_1 like Mac OS X'' @ post)"
        by (simp add: ua)
      with p have "prefix u (drop i pre @ ''iPhone;'' @ ('' CPU iPhone OS 10_3_1 like Mac OS X'' @ post))"
        by simp
      moreover from i have "drop i pre \<noteq> []" by simp
      ultimately have "prefix u (drop i pre)" by (rule ios_heads_local [OF u])
      with u have "starts ios_heads (drop i (prepare False pre))"
        by (auto simp add: starts_def map_fst_drop_prepare map_idI)
      then have "accepts ?R (drop i (prepare False pre))"
        by (simp only: accepts_ios_regex)
      with i have "js_test ios_regex pre"
        unfolding ios_regex_def js_test_accepts fold_case_False
        by (auto intro: less_imp_le)
      with first show False ..
    qed
    then show "rmatch ?R (drop i (prepare False ua), []) = []"
      unfolding accepts_def by (simp only: not_not)
  qed
  moreover have "length pre \<le> length (prepare False ua)" by (simp add: ua)
  ultimately have "search ?R (prepare False ua) = search ?R (drop (length pre) (prepare False ua))"
    by (rule search_skip)
  also have "drop (length pre) (prepare False ua) = prepare False (?tok @ post)"
    by (simp add: ua prepare_drop)
  also note ios_at_token
  finally have "js_match ua ios_regex = Some [Some ''CPU iPhone OS 10_3_1'', Some ''10_3_1'']"
    by (simp add: ios_regex_def)
  then show ?thesis by (simp add: ios_def)
qed

lemma slugify_iOS: "slugify ''iOS'' = ''ios''"
  by code_simp

lemma identifyOS_iOS:
  assumes "sublist ''iPhone'' ua \<or> sublist ''iPod'' ua \<or> sublist ''iPad'' ua"
  shows "identifyOS ua = (case ios ua of Inl e \<Rightarrow> Inl e
                          | Inr v \<Rightarrow> Inr \<lparr>name = ''iOS'', version = v\<rparr>)"
proof -
  let ?r = "RegExp (Seq (Lit ''iP'') (Grp 1 (Alt (Lit ''hone'') (Alt (Lit ''od'') (Lit ''ad''))))) True"
  from assms have "js_test ?r ua"
    by (intro js_test_ignoreCase) (simp only: isIos_regex_iff)
  then have "js_match ua (snd (''iOS'', ?r)) \<noteq> None" by (simp add: js_test_def)
  from testUserAgent_head [OF this]
  obtain m where "testUserAgent commonOperatingSystems ua = Some \<lparr>match = m, string = ''iOS''\<rparr>"
    unfolding commonOperatingSystems_def by auto
  then show ?thesis
    by (simp add: identifyOS_def slugify_iOS operatingSystemVersions_def)
qed

lemma example_host_simps [simp]:
  "userAgent (example_host ua t) = ua" "maxTouchPoints (example_host ua t) = t"
  "devicePixelRatio (example_host ua t) = None" "matchMedia (example_host ua t) = None"
  by (simp_all add: example_host_def)

lemma googlebot_no_rule: "testUserAgent commonOperatingSystems ua_googlebot = None"
  by code_simp

lemma identifyOS_mac: "identifyOS ua_mac = Inr \<lparr>name = ''Mac OS'', version = Some ''10.14.4''\<rparr>"
  by code_simp

lemma identifyOS_kindle_fire:
  "identifyOS ua_kindle_fire = Inr \<lparr>name = ''Android'', version = Some ''4.4 (KitKat)''\<rparr>"
  by code_simp

lemma kindle_fire_tokens: "sublist ''Silk'' ua_kindle_fire" "sublist ''Android'' ua_kindle_fire"
  by code_simp+

lemma indexOf_Android: "\<not> indexOf ''Android'' ''Fire OS'' > -1"
  by code_simp

lemma slugify_BlackBerry_OS: "slugify ''BlackBerry OS'' = ''blackberry_os''"
  by code_simp

lemma indexOf_BlackBerry_OS:
  "\<not> indexOf ''BlackBerry OS'' ''Mac'' > -1" "\<not> indexOf ''BlackBerry OS'' ''Fire OS'' > -1"
  "\<not> indexOf ''BlackBerry OS'' ''Amazon OS'' > -1"
  by code_simp+

lemma blackberry_facts:
  "sublist ''BlackBerry'' ua_blackberry" "\<not> sublist ''Blackberry'' ua_blackberry"
  "\<not> sublist ''BB10'' ua_blackberry" "\<not> sublist ''IEMobile'' ua_blackberry"
  "\<not> sublist ''webOS'' ua_blackberry"
  by code_simp+

lemma blackberry_first_rules: "testUserAgent (take 2 commonOperatingSystems) ua_blackberry = None"
  by code_simp

lemma pixelRatio_2: "devicePixelRatio h = Some (Num 2) \<Longrightarrow> js_ge (pixelRatio h) (Num 2)"
  by (simp add: pixelRatio_def)

lemma retina_facts:
  "sublist ''iPad'' ua_ipad" "\<not> sublist ''iPad'' ua_mac" "\<not> sublist ''iPhone'' ua_mac"
  "\<not> sublist ''iPod'' ua_mac"
  by code_simp+

lemma identifyOS_two_versions:
  "identifyOS ua_two_versions = Inr \<lparr>name = ''iOS'', version = Some ''9''\<rparr>"
  by code_simp

lemma two_versions_token:
  "sublist ''iPhone; CPU iPhone OS 10_3_1 like Mac OS X'' ua_two_versions"
  by code_simp

lemma iphone_prefix_no_version: "\<not> js_test ios_regex ''Mozilla/5.0 (''"
  by code_simp

text \<open>
  Whatever else a user agent matches, once it matches the rule \<open>Android\<close> the table
  answers \<open>iOS\<close> or \<open>Android\<close>: the rules below the second are not reached.
\<close>

lemma android_rule_shadows_later_rules:
  assumes android: "js_test (RegExp (Lit ''Android'') True) ua"
    and os: "identifyOS ua = Inr os"
  shows "name os = ''iOS'' \<or> name os = ''Android''"
proof -
  let ?ios = "RegExp (Seq (Lit ''iP'') (Grp 1 (Alt (Lit ''hone'') (Alt (Lit ''od'') (Lit ''ad''))))) True"
  from android obtain m where m: "js_match ua (RegExp (Lit ''Android'') True) = Some m"
    by (auto simp add: js_test_def)
  have "\<exists>r. testUserAgent commonOperatingSystems ua = Some r
          \<and> (string r = ''iOS'' \<or> string r = ''Android'')"
  proof (cases "js_match ua ?ios")
    case None
    with m show ?thesis
      by (simp add: commonOperatingSystems_def del: js_match.simps)
  next
    case (Some m')
    then show ?thesis
      by (simp add: commonOperatingSystems_def del: js_match.simps)
  qed
  with identifyOS_name [OF os] show ?thesis by auto
qed

section \<open>The claims\<close>

text \<open>
  Claim C1 at a Kindle Fire user agent. The rule \<open>Android\<close> is the second of the
  table and the rule \<open>Fire OS\<close> the fifth; the user agent matches both, so
  \<open>getOperatingSystem\<close> returns the name \<open>Android\<close> and \<open>isKindleFire\<close> returns
  false.
\<close>

theorem kindle_fire_classified_as_android:
  "fst (commonOperatingSystems ! 1) = ''Android''
   \<and> js_test (snd (commonOperatingSystems ! 1)) ua_kindle_fire
   \<and> fst (commonOperatingSystems ! 4) = ''Fire OS''
   \<and> js_test (snd (commonOperatingSystems ! 4)) ua_kindle_fire
   \<and> fst (getOperatingSystem (example_host ua_kindle_fire None) empty_cache)
       = Inr \<lparr>name = ''Android'', version = Some ''4.4 (KitKat)''\<rparr>
   \<and> fst (isKindleFire (example_host ua_kindle_fire None) empty_cache) = Inr False"
proof -
  have os: "identifyOS (userAgent (example_host ua_kindle_fire None))
      = Inr \<lparr>name = ''Android'', version = Some ''4.4 (KitKat)''\<rparr>"
    by (simp add: identifyOS_kindle_fire)
  have "js_test (RegExp (Lit ''Android'') False) ua_kindle_fire"
    "js_test (RegExp (Lit ''Silk'') False) ua_kindle_fire"
    by (simp_all add: js_test_Lit_False kindle_fire_tokens)
  then have "js_test (RegExp (Lit ''Android'') True) ua_kindle_fire"
    "js_test (RegExp (Lit ''Silk'') True) ua_kindle_fire"
    by (auto intro: js_test_ignoreCase)
  then have "js_test (snd (commonOperatingSystems ! 1)) ua_kindle_fire"
    "js_test (snd (commonOperatingSystems ! 4)) ua_kindle_fire"
    by (simp_all add: commonOperatingSystems_def js_test_Alt)
  moreover have "fst (commonOperatingSystems ! 1) = ''Android''"
    "fst (commonOperatingSystems ! 4) = ''Fire OS''"
    by (simp_all add: commonOperatingSystems_def)
  moreover note reachable_results(1,7) [OF reachable_empty os]
  ultimately show ?thesis by (simp add: indexOf_Android)
qed

text \<open>
  Claim C2. In every cache state the module can be in, \<open>isMobile\<close> and
  \<open>isDesktop\<close> return without throwing and \<open>isDesktop\<close> returns the negation of
  \<open>isMobile\<close>: exactly one of the two is true, whichever of them is called first. The
  host (user agent and touch points) is the same for all calls.
\<close>

theorem isMobile_isDesktop_complementary:
  assumes "reachable h c"
  shows "\<exists>m. (\<exists>c1 c2. isMobile h c = (Inr m, c1) \<and> isDesktop h c1 = (Inr (\<not> m), c2))
           \<and> (\<exists>c1 c2. isDesktop h c = (Inr (\<not> m), c1) \<and> isMobile h c1 = (Inr m, c2))"
proof -
  obtain os where os: "identifyOS (userAgent h) = Inr os"
    using identifyOS_total by blast
  let ?m = "mobile_value h os"
  have m1: "fst (isMobile h c) = Inr ?m"
    by (rule reachable_results [OF assms os])
  have "reachable h (snd (isMobile h c))"
    by (rule reachable_isMobile [OF assms])
  then have d1: "fst (isDesktop h (snd (isMobile h c))) = Inr (\<not> ?m)"
    by (rule reachable_results [OF _ os])
  have d2: "fst (isDesktop h c) = Inr (\<not> ?m)"
    by (rule reachable_results [OF assms os])
  have "reachable h (snd (isDesktop h c))"
    by (rule reachable_isDesktop [OF assms])
  then have m2: "fst (isMobile h (snd (isDesktop h c))) = Inr ?m"
    by (rule reachable_results [OF _ os])
  from m1 d1 have "\<exists>c1 c2. isMobile h c = (Inr ?m, c1) \<and> isDesktop h c1 = (Inr (\<not> ?m), c2)"
    by (metis prod.collapse)
  moreover
  from m2 d2 have "\<exists>c1 c2. isDesktop h c = (Inr (\<not> ?m), c1) \<and> isMobile h c1 = (Inr ?m, c2)"
    by (metis prod.collapse)
  ultimately show ?thesis by blast
qed

text \<open>
  Claim C2 on the freshly loaded module.
\<close>

theorem isMobile_isDesktop_complementary_witness:
  "reachable host_600_800 empty_cache
   \<and> (\<exists>m. (\<exists>c1 c2. isMobile host_600_800 empty_cache = (Inr m, c1)
                   \<and> isDesktop host_600_800 c1 = (Inr (\<not> m), c2))
         \<and> (\<exists>c1 c2. isDesktop host_600_800 empty_cache = (Inr (\<not> m), c1)
                   \<and> isMobile host_600_800 c1 = (Inr m, c2)))"
  using isMobile_isDesktop_complementary [OF reachable_empty, of host_600_800] reachable_empty
  by blast

text \<open>
  Claim C3. After \<open>setViewport\<close> has measured the host \<open>h\<close>, whatever was stored
  before (the state \<open>s\<close> may come from an earlier measurement and from earlier calls of
  the predicates), every viewport predicate returns its defining comparison applied to the
  width and height just measured. The predicates keep no cache of their own.
\<close>

theorem viewport_predicates_follow_measurement:
  "fst (isLandscape h' (setViewport h s))
     = js_gt (js_div (max (clientWidth h) (innerWidth h)) (max (clientHeight h) (innerHeight h))) (Num 1)
   \<and> fst (isPortrait h' (setViewport h s))
     = (\<not> js_gt (js_div (max (clientWidth h) (innerWidth h)) (max (clientHeight h) (innerHeight h))) (Num 1))
   \<and> fst (isWideScreen h' (setViewport h s))
     = js_gt (js_div (max (clientWidth h) (innerWidth h)) (max (clientHeight h) (innerHeight h))) (js_div 1440 1029)
   \<and> fst (isSmallScreen h' (setViewport h s)) = (max (clientWidth h) (innerWidth h) \<le> 740)
   \<and> fst (isLargeScreen h' (setViewport h s)) = (1150 \<le> max (clientWidth h) (innerWidth h))"
  by (simp add: isLandscape_def isPortrait_def isWideScreen_def isSmallScreen_def
      isLargeScreen_def getAspectRatio_def getViewport_setViewport measure_viewport_simps
      breakpoint_values)

text \<open>
  Claim C4, as stated, fails: at width 600 and height 800 the entry named \<open>medium\<close>
  (threshold 740) is not active; width 600 is the threshold of \<open>small\<close>.
\<close>

theorem medium_inactive_at_600:
  "fst (getViewport host_600_800 None) = \<lparr>width = 600, height = 800, aspectRatio = Num (3 / 4)\<rparr>
   \<and> fst (getBreakpoints host_600_800 None) =
     [\<lparr>bp_width = 320, bp_name = ''xxsmall'', active = True\<rparr>,
      \<lparr>bp_width = 480, bp_name = ''xsmall'', active = True\<rparr>,
      \<lparr>bp_width = 600, bp_name = ''small'', active = True\<rparr>,
      \<lparr>bp_width = 740, bp_name = ''medium'', active = False\<rparr>,
      \<lparr>bp_width = 1024, bp_name = ''large'', active = False\<rparr>,
      \<lparr>bp_width = 1150, bp_name = ''xlarge'', active = False\<rparr>,
      \<lparr>bp_width = 1440, bp_name = ''xxlarge'', active = False\<rparr>]"
  by (simp add: getBreakpoints_eq getViewport_def setViewport_def
      measure_viewport_def host_600_800_def js_div_def)

text \<open>
  Claim C4, amended. When the current viewport has width 600 and height 800,
  \<open>isSmallScreen\<close> returns true, \<open>isLargeScreen\<close> returns false, and in the
  sequence returned by \<open>getBreakpoints\<close> the entry named \<open>medium\<close> and the entry
  named \<open>large\<close> both have \<open>active = false\<close>.
\<close>

theorem viewport_600_800:
  assumes "width (fst (getViewport h s)) = 600" and "height (fst (getViewport h s)) = 800"
  shows "fst (isSmallScreen h s) \<and> \<not> fst (isLargeScreen h s)
    \<and> filter (\<lambda>e. bp_name e = ''medium'') (fst (getBreakpoints h s))
        = [\<lparr>bp_width = 740, bp_name = ''medium'', active = False\<rparr>]
    \<and> filter (\<lambda>e. bp_name e = ''large'') (fst (getBreakpoints h s))
        = [\<lparr>bp_width = 1024, bp_name = ''large'', active = False\<rparr>]"
  using assms
  by (simp add: isSmallScreen_def isLargeScreen_def getBreakpoints_eq
      breakpoint_values split_beta)

text \<open>
  The amended claim C4 at the host that measures 600 by 800.
\<close>

theorem viewport_600_800_witness:
  "width (fst (getViewport host_600_800 None)) = 600
   \<and> height (fst (getViewport host_600_800 None)) = 800
   \<and> fst (isSmallScreen host_600_800 None) \<and> \<not> fst (isLargeScreen host_600_800 None)
   \<and> filter (\<lambda>e. bp_name e = ''medium'') (fst (getBreakpoints host_600_800 None))
        = [\<lparr>bp_width = 740, bp_name = ''medium'', active = False\<rparr>]
   \<and> filter (\<lambda>e. bp_name e = ''large'') (fst (getBreakpoints host_600_800 None))
        = [\<lparr>bp_width = 1024, bp_name = ''large'', active = False\<rparr>]"
proof -
  have w: "width (fst (getViewport host_600_800 None)) = 600"
    and h: "height (fst (getViewport host_600_800 None)) = 800"
    by (simp_all add: getViewport_def setViewport_def measure_viewport_def host_600_800_def)
  from viewport_600_800 [OF w h] w h show ?thesis by simp
qed

text \<open>
  Claim C5. When no rule of the table matches the user agent, \<open>testUserAgent\<close>
  returns \<open>false\<close>, \<open>getOperatingSystem\<close> returns the name \<open>unknown\<close> with the empty
  version, and no classification throws: every device predicate returns false and
  \<open>isDesktop\<close> returns true.
\<close>

theorem unknown_user_agent:
  assumes none: "testUserAgent commonOperatingSystems (userAgent h) = None"
    and c: "reachable h c"
  shows "fst (getOperatingSystem h c) = Inr \<lparr>name = ''unknown'', version = Some []\<rparr>
    \<and> fst (isKindle h c) = Inr False \<and> fst (isKindleFire h c) = Inr False
    \<and> fst (isMacOs h c) = Inr False \<and> fst (isIpadOs h c) = Inr False
    \<and> fst (isAndroid h c) = Inr False \<and> fst (isIos h c) = Inr False
    \<and> fst (isIphone h c) = Inr False \<and> fst (isBlackberry h c) = Inr False
    \<and> fst (isWindowsMobile h c) = Inr False \<and> fst (isWebOS h c) = Inr False
    \<and> fst (isMobile h c) = Inr False \<and> fst (isDesktop h c) = Inr True"
proof -
  let ?os = "\<lparr>name = ''unknown'', version = Some []\<rparr>"
  have os: "identifyOS (userAgent h) = Inr ?os"
    by (rule identifyOS_unknown [OF none])
  from none have "\<forall>q\<in>set (butlast commonOperatingSystems). js_match (userAgent h) (snd q) = None"
    by (auto simp add: testUserAgent_None_iff dest: in_set_butlastD)
  note silent = earlier_rules_silent [OF this]
  from silent have "\<not> mobile_value h ?os"
    by (simp add: mobile_value_def indexOf_unknown)
  with reachable_results [OF c os] silent indexOf_unknown show ?thesis
    by simp
qed

text \<open>
  Claim C5 for a crawler's user agent, which no rule of the table matches.
\<close>

theorem unknown_user_agent_witness:
  "testUserAgent commonOperatingSystems (userAgent (example_host ua_googlebot None)) = None
   \<and> reachable (example_host ua_googlebot None) empty_cache
   \<and> fst (getOperatingSystem (example_host ua_googlebot None) empty_cache)
       = Inr \<lparr>name = ''unknown'', version = Some []\<rparr>
   \<and> fst (isMobile (example_host ua_googlebot None) empty_cache) = Inr False
   \<and> fst (isDesktop (example_host ua_googlebot None) empty_cache) = Inr True"
proof -
  have none: "testUserAgent commonOperatingSystems (userAgent (example_host ua_googlebot None)) = None"
    by (simp add: googlebot_no_rule)
  from unknown_user_agent [OF none reachable_empty] none reachable_empty
  show ?thesis by blast
qed

text \<open>
  Claim C6, as stated, fails: in a user agent that contains
  \<open>iPhone; CPU iPhone OS 10_3_1 like Mac OS X\<close> after an earlier \<open>CPU OS 9\<close>, the
  version pattern takes its leftmost match and \<open>getOperatingSystem\<close> returns the version
  \<open>9\<close>.
\<close>

theorem earlier_version_token_wins:
  "sublist ''iPhone; CPU iPhone OS 10_3_1 like Mac OS X''
     (userAgent (example_host ua_two_versions None))
   \<and> fst (getOperatingSystem (example_host ua_two_versions None) empty_cache)
       = Inr \<lparr>name = ''iOS'', version = Some ''9''\<rparr>"
proof -
  have os: "identifyOS (userAgent (example_host ua_two_versions None))
      = Inr \<lparr>name = ''iOS'', version = Some ''9''\<rparr>"
    by (simp add: identifyOS_two_versions)
  from reachable_results(1) [OF reachable_empty os] two_versions_token
  show ?thesis by simp
qed

text \<open>
  Claim C6, amended. For a user agent that contains
  \<open>iPhone; CPU iPhone OS 10_3_1 like Mac OS X\<close>, where the text before this token has
  no match of the version pattern (no \<open>CPU OS\<close> or \<open>CPU iPhone OS\<close> followed by a
  space and a digit), \<open>getOperatingSystem\<close> returns the name \<open>iOS\<close> and the version
  \<open>10.3.1\<close>; \<open>isIos\<close>, \<open>isIphone\<close> and \<open>isMobile\<close> return true and
  \<open>isDesktop\<close> returns false.
\<close>

theorem iphone_user_agent:
  assumes ua: "userAgent h = pre @ ''iPhone; CPU iPhone OS 10_3_1 like Mac OS X'' @ post"
    and first: "\<not> js_test ios_regex pre"
    and c: "reachable h c"
  shows "fst (getOperatingSystem h c) = Inr \<lparr>name = ''iOS'', version = Some ''10.3.1''\<rparr>
    \<and> fst (isIos h c) = Inr True \<and> fst (isIphone h c) = Inr True
    \<and> fst (isMobile h c) = Inr True \<and> fst (isDesktop h c) = Inr False"
proof -
  let ?os = "\<lparr>name = ''iOS'', version = Some ''10.3.1''\<rparr>"
  have "userAgent h = pre @ ''iPhone'' @ (''; CPU iPhone OS 10_3_1 like Mac OS X'' @ post)"
    by (simp add: ua)
  then have iphone: "sublist ''iPhone'' (userAgent h)"
    unfolding sublist_def by blast
  with ios_version_at_token [OF ua first] have os: "identifyOS (userAgent h) = Inr ?os"
    by (simp add: identifyOS_iOS)
  from iphone have "mobile_value h ?os" by (simp add: mobile_value_def)
  with reachable_results [OF c os] iphone show ?thesis by simp
qed

text \<open>
  The amended claim C6 for the iPhone user agent quoted in the source.
\<close>

theorem iphone_user_agent_witness:
  "userAgent (example_host ua_iphone None)
     = ''Mozilla/5.0 ('' @ ''iPhone; CPU iPhone OS 10_3_1 like Mac OS X''
         @ '') AppleWebKit/603.1.30 (KHTML, like Gecko) Version/10.0 Mobile/14E304 Safari/602.1''
   \<and> \<not> js_test ios_regex ''Mozilla/5.0 (''
   \<and> reachable (example_host ua_iphone None) empty_cache
   \<and> fst (getOperatingSystem (example_host ua_iphone None) empty_cache)
       = Inr \<lparr>name = ''iOS'', version = Some ''10.3.1''\<rparr>
   \<and> fst (isIos (example_host ua_iphone None) empty_cache) = Inr True
   \<and> fst (isIphone (example_host ua_iphone None) empty_cache) = Inr True
   \<and> fst (isMobile (example_host ua_iphone None) empty_cache) = Inr True
   \<and> fst (isDesktop (example_host ua_iphone None) empty_cache) = Inr False"
proof -
  have ua: "userAgent (example_host ua_iphone None)
     = ''Mozilla/5.0 ('' @ ''iPhone; CPU iPhone OS 10_3_1 like Mac OS X''
         @ '') AppleWebKit/603.1.30 (KHTML, like Gecko) Version/10.0 Mobile/14E304 Safari/602.1''"
    by (simp add: example_host_def ua_iphone_def)
  note first = iphone_prefix_no_version
  from iphone_user_agent [OF ua first reachable_empty] ua first reachable_empty
  show ?thesis by blast
qed

text \<open>
  Claim C7. In every cache state the module can be in, \<open>isIpadOs\<close> returns true
  exactly when \<open>isMacOs\<close> returns true and the host reports 5 touch points; with the
  count unavailable or 0 it returns false. For a Mac OS user agent, 5 touch points make
  \<open>isMobile\<close> true, and any other count makes \<open>isMobile\<close> false and \<open>isDesktop\<close>
  true.
\<close>

theorem isIpadOs_heuristic:
  assumes c: "reachable h c"
  shows "\<exists>mac. fst (isMacOs h c) = Inr mac
    \<and> fst (isIpadOs h c) = Inr (mac \<and> maxTouchPoints h = Some 5)
    \<and> (maxTouchPoints h = None \<or> maxTouchPoints h = Some 0 \<longrightarrow> fst (isIpadOs h c) = Inr False)
    \<and> (mac \<and> maxTouchPoints h = Some 5 \<longrightarrow> fst (isMobile h c) = Inr True)
    \<and> (mac \<and> maxTouchPoints h \<noteq> Some 5
          \<longrightarrow> fst (isMobile h c) = Inr False \<and> fst (isDesktop h c) = Inr True)"
proof -
  obtain os where os: "identifyOS (userAgent h) = Inr os"
    using identifyOS_total by blast
  let ?mac = "indexOf (name os) ''Mac'' > -1"
  note r = reachable_results [OF c os]
  have five: "fst (isMobile h c) = Inr True" if "?mac" "maxTouchPoints h = Some 5"
    using that r(2) by (simp add: mobile_value_def)
  have other: "fst (isMobile h c) = Inr False \<and> fst (isDesktop h c) = Inr True"
    if mac: "?mac" and t: "maxTouchPoints h \<noteq> Some 5"
  proof -
    from mac have n: "name os = ''Mac OS''" by (simp add: isMacOs_name [OF os])
    note silent = earlier_rules_silent [OF mac_os_earlier_rules [OF os n]]
    from silent t n have "\<not> mobile_value h os"
      by (simp add: mobile_value_def indexOf_Mac_OS)
    with r(2,3) show ?thesis by simp
  qed
  from r(4,5) five other show ?thesis by auto
qed

text \<open>
  Claim C7 for the Mac OS user agent quoted in the source, with 5 and with 0 touch points.
\<close>

theorem isIpadOs_heuristic_witness:
  "reachable (example_host ua_mac (Some 5)) empty_cache
   \<and> fst (isMacOs (example_host ua_mac (Some 5)) empty_cache) = Inr True
   \<and> fst (isIpadOs (example_host ua_mac (Some 5)) empty_cache) = Inr True
   \<and> fst (isMobile (example_host ua_mac (Some 5)) empty_cache) = Inr True
   \<and> reachable (example_host ua_mac (Some 0)) empty_cache
   \<and> fst (isMacOs (example_host ua_mac (Some 0)) empty_cache) = Inr True
   \<and> fst (isIpadOs (example_host ua_mac (Some 0)) empty_cache) = Inr False
   \<and> fst (isMobile (example_host ua_mac (Some 0)) empty_cache) = Inr False
   \<and> fst (isDesktop (example_host ua_mac (Some 0)) empty_cache) = Inr True"
proof -
  have mac: "fst (isMacOs (example_host ua_mac t) empty_cache) = Inr True" for t
    using reachable_results(5) [OF reachable_empty, of "example_host ua_mac t"] identifyOS_mac
    by (simp add: indexOf_Mac_OS)
  from isIpadOs_heuristic [OF reachable_empty, of "example_host ua_mac (Some 5)"] mac [of "Some 5"]
  have a: "fst (isIpadOs (example_host ua_mac (Some 5)) empty_cache) = Inr True
     \<and> fst (isMobile (example_host ua_mac (Some 5)) empty_cache) = Inr True"
    by auto
  from isIpadOs_heuristic [OF reachable_empty, of "example_host ua_mac (Some 0)"] mac [of "Some 0"]
  have b: "fst (isIpadOs (example_host ua_mac (Some 0)) empty_cache) = Inr False
     \<and> fst (isMobile (example_host ua_mac (Some 0)) empty_cache) = Inr False
     \<and> fst (isDesktop (example_host ua_mac (Some 0)) empty_cache) = Inr True"
    by auto
  from a b mac reachable_empty show ?thesis by blast
qed

text \<open>
  Claim C8. \<open>isRetina\<close> returns true only for a user agent that contains
  \<open>iPad\<close>, \<open>iPhone\<close> or \<open>iPod\<close>. With a device pixel ratio of 2 and no media
  queries, a user agent containing \<open>iPad\<close> gives true, and a user agent with none of the
  three tokens gives false although the ratio reaches the threshold.
\<close>

theorem isRetina_apple_only:
  "(isRetina h \<longrightarrow> sublist ''iPad'' (userAgent h) \<or> sublist ''iPhone'' (userAgent h)
                    \<or> sublist ''iPod'' (userAgent h))
   \<and> (devicePixelRatio h = Some (Num 2) \<and> matchMedia h = None \<and> sublist ''iPad'' (userAgent h)
        \<longrightarrow> isRetina h)
   \<and> (devicePixelRatio h = Some (Num 2) \<and> matchMedia h = None
        \<and> \<not> sublist ''iPad'' (userAgent h) \<and> \<not> sublist ''iPhone'' (userAgent h)
        \<and> \<not> sublist ''iPod'' (userAgent h)
        \<longrightarrow> js_ge (pixelRatio h) (Num 2) \<and> \<not> isRetina h)"
  unfolding isRetina_def isRetina_regex_iff
  by (auto simp add: pixelRatio_2)

text \<open>
  Claim C8 for the iPad and the Mac OS user agents quoted in the source, at pixel ratio 2.
\<close>

theorem isRetina_apple_only_witness:
  "devicePixelRatio ((example_host ua_ipad None)\<lparr>devicePixelRatio := Some (Num 2)\<rparr>) = Some (Num 2)
   \<and> matchMedia ((example_host ua_ipad None)\<lparr>devicePixelRatio := Some (Num 2)\<rparr>) = None
   \<and> sublist ''iPad'' (userAgent ((example_host ua_ipad None)\<lparr>devicePixelRatio := Some (Num 2)\<rparr>))
   \<and> isRetina ((example_host ua_ipad None)\<lparr>devicePixelRatio := Some (Num 2)\<rparr>)
   \<and> devicePixelRatio ((example_host ua_mac None)\<lparr>devicePixelRatio := Some (Num 2)\<rparr>) = Some (Num 2)
   \<and> matchMedia ((example_host ua_mac None)\<lparr>devicePixelRatio := Some (Num 2)\<rparr>) = None
   \<and> \<not> sublist ''iPad'' (userAgent ((example_host ua_mac None)\<lparr>devicePixelRatio := Some (Num 2)\<rparr>))
   \<and> \<not> sublist ''iPhone'' (userAgent ((example_host ua_mac None)\<lparr>devicePixelRatio := Some (Num 2)\<rparr>))
   \<and> \<not> sublist ''iPod'' (userAgent ((example_host ua_mac None)\<lparr>devicePixelRatio := Some (Num 2)\<rparr>))
   \<and> js_ge (pixelRatio ((example_host ua_mac None)\<lparr>devicePixelRatio := Some (Num 2)\<rparr>)) (Num 2)
   \<and> \<not> isRetina ((example_host ua_mac None)\<lparr>devicePixelRatio := Some (Num 2)\<rparr>)"
proof -
  let ?ipad = "(example_host ua_ipad None)\<lparr>devicePixelRatio := Some (Num 2)\<rparr>"
  let ?mac = "(example_host ua_mac None)\<lparr>devicePixelRatio := Some (Num 2)\<rparr>"
  have a: "devicePixelRatio ?ipad = Some (Num 2)" "matchMedia ?ipad = None"
    "sublist ''iPad'' (userAgent ?ipad)"
    by (simp_all add: retina_facts)
  have b: "devicePixelRatio ?mac = Some (Num 2)" "matchMedia ?mac = None"
    "\<not> sublist ''iPad'' (userAgent ?mac)" "\<not> sublist ''iPhone'' (userAgent ?mac)"
    "\<not> sublist ''iPod'' (userAgent ?mac)"
    by (simp_all add: retina_facts)
  from isRetina_apple_only [of ?ipad] a have "isRetina ?ipad" by blast
  moreover from isRetina_apple_only [of ?mac] b
  have "js_ge (pixelRatio ?mac) (Num 2) \<and> \<not> isRetina ?mac" by blast
  ultimately show ?thesis using a b by blast
qed

text \<open>
  Claim C9. Breakpoint activation is monotonic in the viewport width: an entry of
  \<open>getBreakpoints\<close> that is active at one width is an entry, still active, at every
  larger width.
\<close>

theorem breakpoints_monotonic:
  assumes lt: "width (fst (getViewport h1 s1)) < width (fst (getViewport h2 s2))"
    and e: "e \<in> set (fst (getBreakpoints h1 s1))" and act: "active e"
  shows "e \<in> set (fst (getBreakpoints h2 s2))"
proof -
  from e obtain p where p: "p \<in> set breakpoints"
    and ep: "e = \<lparr>bp_width = snd p, bp_name = fst p,
                   active = (snd p \<le> width (fst (getViewport h1 s1)))\<rparr>"
    unfolding getBreakpoints_map by auto
  from ep act have "snd p \<le> width (fst (getViewport h1 s1))" by simp
  with lt have "snd p \<le> width (fst (getViewport h2 s2))" by simp
  with ep act have "e = \<lparr>bp_width = snd p, bp_name = fst p,
                   active = (snd p \<le> width (fst (getViewport h2 s2)))\<rparr>" by simp
  with p show ?thesis
    unfolding getBreakpoints_map by (simp add: image_iff) blast
qed

text \<open>
  Claim C9 at widths 600 and 800: the entry \<open>small\<close> is active at both.
\<close>

theorem breakpoints_monotonic_witness:
  "width (fst (getViewport host_600_800 None))
     < width (fst (getViewport host_600_800 (Some \<lparr>width = 800, height = 600, aspectRatio = Num (4 / 3)\<rparr>)))
   \<and> \<lparr>bp_width = 600, bp_name = ''small'', active = True\<rparr> \<in> set (fst (getBreakpoints host_600_800 None))
   \<and> \<lparr>bp_width = 600, bp_name = ''small'', active = True\<rparr>
       \<in> set (fst (getBreakpoints host_600_800 (Some \<lparr>width = 800, height = 600, aspectRatio = Num (4 / 3)\<rparr>)))"
proof -
  let ?s2 = "Some \<lparr>width = 800, height = 600, aspectRatio = Num (4 / 3)\<rparr>"
  let ?e = "\<lparr>bp_width = 600, bp_name = ''small'', active = True\<rparr>"
  have a: "width (fst (getViewport host_600_800 None)) < width (fst (getViewport host_600_800 ?s2))"
    by (simp add: getViewport_def setViewport_def measure_viewport_def host_600_800_def)
  have b: "?e \<in> set (fst (getBreakpoints host_600_800 None))"
    by (simp add: getBreakpoints_eq getViewport_def setViewport_def
        measure_viewport_def host_600_800_def)
  have c: "active ?e" by simp
  from breakpoints_monotonic [OF a b c] a b show ?thesis by simp
qed

text \<open>
  Claim C10. For a user agent that contains \<open>BlackBerry\<close> in this capitalisation,
  neither \<open>Blackberry\<close> nor \<open>BB10\<close>, and no token of another mobile system,
  \<open>getOperatingSystem\<close> returns the name \<open>BlackBerry OS\<close>, while \<open>isBlackberry\<close>
  and \<open>isMobile\<close> return false and \<open>isDesktop\<close> returns true.
\<close>

theorem blackberry_disagreement:
  assumes upper: "sublist ''BlackBerry'' (userAgent h)"
    and lower: "\<not> sublist ''Blackberry'' (userAgent h)" and bb10: "\<not> sublist ''BB10'' (userAgent h)"
    and first: "testUserAgent (take 2 commonOperatingSystems) (userAgent h) = None"
    and others: "\<not> sublist ''IEMobile'' (userAgent h)" "\<not> sublist ''webOS'' (userAgent h)"
    and c: "reachable h c"
  shows "fst (getOperatingSystem h c) = Inr \<lparr>name = ''BlackBerry OS'', version = Some []\<rparr>
    \<and> fst (isBlackberry h c) = Inr False
    \<and> fst (isMobile h c) = Inr False \<and> fst (isDesktop h c) = Inr True"
proof -
  let ?ua = "userAgent h"
  let ?os = "\<lparr>name = ''BlackBerry OS'', version = Some []\<rparr>"
  let ?ios = "RegExp (Seq (Lit ''iP'') (Grp 1 (Alt (Lit ''hone'') (Alt (Lit ''od'') (Lit ''ad''))))) True"
  let ?bb = "RegExp (Alt (Lit ''BlackBerry'') (Lit ''BB10'')) True"
  from first have none: "js_match ?ua ?ios = None" "js_match ?ua (RegExp (Lit ''Android'') True) = None"
    by (simp_all add: commonOperatingSystems_def split: option.splits)
  from upper have "js_test (RegExp (Alt (Lit ''BlackBerry'') (Lit ''BB10'')) False) ?ua"
    by (simp add: js_test_Alt js_test_Lit_False)
  then have "js_test ?bb ?ua" by (rule js_test_ignoreCase)
  then obtain m where "js_match ?ua ?bb = Some m" by (auto simp add: js_test_def)
  with none have "testUserAgent commonOperatingSystems ?ua = Some \<lparr>match = m, string = ''BlackBerry OS''\<rparr>"
    by (simp add: commonOperatingSystems_def)
  then have os: "identifyOS ?ua = Inr ?os"
    by (simp add: identifyOS_def slugify_BlackBerry_OS operatingSystemVersions_def)
  from none(2) have "\<not> js_test (RegExp (Lit ''Android'') True) ?ua" by (simp add: js_test_def)
  then have android: "\<not> sublist ''Android'' ?ua"
    using js_test_ignoreCase [of "Lit ''Android''" ?ua] by (auto simp add: js_test_Lit_False)
  from none(1) have "\<not> js_test ?ios ?ua" by (simp add: js_test_def)
  then have ios: "\<not> (sublist ''iPhone'' ?ua \<or> sublist ''iPod'' ?ua \<or> sublist ''iPad'' ?ua)"
    using js_test_ignoreCase isIos_regex_iff by blast
  from android ios lower bb10 others have "\<not> mobile_value h ?os"
    by (simp add: mobile_value_def indexOf_BlackBerry_OS)
  with reachable_results [OF c os] lower bb10 show ?thesis by simp
qed

text \<open>
  Claim C10 for the user agent of a BlackBerry 9900: such a user agent exists.
\<close>

theorem blackberry_disagreement_witness:
  "sublist ''BlackBerry'' (userAgent (example_host ua_blackberry None))
   \<and> \<not> sublist ''Blackberry'' (userAgent (example_host ua_blackberry None))
   \<and> \<not> sublist ''BB10'' (userAgent (example_host ua_blackberry None))
   \<and> testUserAgent (take 2 commonOperatingSystems) (userAgent (example_host ua_blackberry None)) = None
   \<and> \<not> sublist ''IEMobile'' (userAgent (example_host ua_blackberry None))
   \<and> \<not> sublist ''webOS'' (userAgent (example_host ua_blackberry None))
   \<and> reachable (example_host ua_blackberry None) empty_cache
   \<and> fst (getOperatingSystem (example_host ua_blackberry None) empty_cache)
       = Inr \<lparr>name = ''BlackBerry OS'', version = Some []\<rparr>
   \<and> fst (isBlackberry (example_host ua_blackberry None) empty_cache) = Inr False
   \<and> fst (isMobile (example_host ua_blackberry None) empty_cache) = Inr False
   \<and> fst (isDesktop (example_host ua_blackberry None) empty_cache) = Inr True"
proof -
  let ?h = "example_host ua_blackberry None"
  have a: "sublist ''BlackBerry'' (userAgent ?h)" "\<not> sublist ''Blackberry'' (userAgent ?h)"
    "\<not> sublist ''BB10'' (userAgent ?h)"
    "testUserAgent (take 2 commonOperatingSystems) (userAgent ?h) = None"
    "\<not> sublist ''IEMobile'' (userAgent ?h)" "\<not> sublist ''webOS'' (userAgent ?h)"
    by (simp_all add: blackberry_facts blackberry_first_rules)
  from blackberry_disagreement [OF a reachable_empty] a reachable_empty
  show ?thesis by blast
qed

end
